theory Spec2Isabelle
  imports Main
begin

section \<open>The context registry of apple\_glx\_context.c\<close>

text \<open>
  The file keeps every live \<open>struct apple_glx_context\<close> on a doubly linked list
  \<open>context_list\<close> guarded by the mutex \<open>context_lock\<close>. The embedding is sequential:
  one call of one function runs from a state to a state. Every effect of a statement that
  another party can see is appended to the field \<open>trace\<close> of the state, in program order:
  taking and releasing the mutex, each store into a field of a context or into
  \<open>context_list\<close>, each load of a context during the scan, and each call of a function
  defined outside the file together with the value that call returned.
\<close>

subsection \<open>Data\<close>

type_synonym ctx_ptr = nat
type_synonym agd_ptr = nat
type_synonym CGLContextObj = nat
type_synonym CGLPixelFormatObj = nat
type_synonym display = nat
type_synonym XID = nat
type_synonym xp_surface_id = nat
type_synonym pthread_t = nat

text \<open>The X11 constant \<open>None\<close> is the resource id 0.\<close>

definition None_XID :: XID where
  "None_XID = 0"

text \<open>
  \<open>struct apple_glx_drawable\<close> is declared in apple\_glx\_drawable.h. The file reads
  three of its fields: \<open>drawable\<close> (here \<open>agd_drawable\<close>), \<open>uid\<close> and \<open>surface_id\<close>.
  The field \<open>reference_count\<close> is the count the drawable manager keeps; the file never
  reads it, and only \<open>counted_destroy\<close> below gives it a meaning.
\<close>

record apple_glx_drawable =
  agd_drawable :: XID
  uid :: nat
  surface_id :: xp_surface_id
  reference_count :: nat

text \<open>
  \<open>struct apple_glx_context\<close>, with the fields the file uses. A pointer is an address
  or \<open>None\<close> for \<open>NULL\<close>. The field \<open>next\<close> is called \<open>next_ptr\<close>.
\<close>

record apple_glx_context =
  context_obj :: "CGLContextObj option"
  pixel_format_obj :: "CGLPixelFormatObj option"
  drawable :: "agd_ptr option"
  thread_id :: pthread_t
  screen :: int
  double_buffered :: bool
  previous :: "ctx_ptr option"
  next_ptr :: "ctx_ptr option"

datatype event =
    Lock
  | Unlock
  | Store_context_list "ctx_ptr option"
  | Store_next ctx_ptr "ctx_ptr option"
  | Store_previous ctx_ptr "ctx_ptr option"
  | Store_drawable ctx_ptr "agd_ptr option"
  | Store_thread_id ctx_ptr pthread_t
  | Load_context ctx_ptr
  | Call_set_current_context "CGLContextObj option" int
  | Call_clear_drawable "CGLContextObj option" int
  | Call_destroy_pixel_format "CGLPixelFormatObj option" int
  | Call_destroy_context "CGLContextObj option" int
  | Call_xp_attach_gl_context "CGLContextObj option" xp_surface_id int
  | Call_release_drawable agd_ptr
  | Call_destroy_drawable agd_ptr bool
  | Call_find_drawable "display option" XID "agd_ptr option"
  | Call_create_drawable "display option" ctx_ptr XID bool "agd_ptr option"
  | Call_garbage_collect_drawables "display option"
  | Call_XAppleDRIDestroySurface "display option" int XID
  | Call_free ctx_ptr

text \<open>
  The program state: the memory holding contexts, the two file-level variables
  \<open>context_list\<close> and \<open>context_lock\<close> (\<open>True\<close> when the mutex is held), the memory
  holding the drawable records, which belongs to the drawable manager, and the trace.
\<close>

record state =
  heap :: "ctx_ptr \<Rightarrow> apple_glx_context option"
  context_list :: "ctx_ptr option"
  context_lock :: bool
  drawables :: "agd_ptr \<Rightarrow> apple_glx_drawable option"
  trace :: "event list"

text \<open>
  A call either returns, or ends in \<open>abort()\<close>, or dereferences a pointer that points to
  no object (undefined behaviour in C, a value of its own here).
\<close>

datatype error = Abort | Fault

subsection \<open>Functions defined outside the file\<close>

text \<open>
  The functions of \<open>apple_cgl\<close>, of the drawable manager, of libXplugin and of the
  AppleDRI extension are not in the file. Each is a parameter, a field of \<open>env\<close>.
  The CGL and Xplugin functions answer with an error code, 0 for success. The functions
  of the drawable manager work on the memory of the drawable records and return its new
  content; those that can fail return \<open>True\<close> on error, and \<open>apple_glx_destroy_drawable\<close>
  returns \<open>True\<close> when the last reference went away.
  One call of a function of the file calls each outside function at most once, so a
  function of the arguments can give every answer the real function could give during that
  call; a sequence of calls takes one \<open>env\<close> per call. A theorem for every \<open>env\<close> then
  covers every behaviour of the outside functions.
  An outside function is taken not to write the memory of the contexts, \<open>context_list\<close>
  or \<open>context_lock\<close>.
\<close>

type_synonym drawable_store = "agd_ptr \<Rightarrow> apple_glx_drawable option"

record env =
  cgl_set_current_context :: "CGLContextObj option \<Rightarrow> int"
  cgl_clear_drawable :: "CGLContextObj option \<Rightarrow> int"
  cgl_destroy_pixel_format :: "CGLPixelFormatObj option \<Rightarrow> int"
  cgl_destroy_context :: "CGLContextObj option \<Rightarrow> int"
  xp_attach_gl_context :: "CGLContextObj option \<Rightarrow> xp_surface_id \<Rightarrow> int"
  glx_release_drawable :: "drawable_store \<Rightarrow> agd_ptr \<Rightarrow> drawable_store"
  glx_destroy_drawable :: "drawable_store \<Rightarrow> agd_ptr \<Rightarrow> bool \<times> drawable_store"
  glx_find_drawable ::
    "drawable_store \<Rightarrow> display option \<Rightarrow> XID \<Rightarrow> agd_ptr option \<times> drawable_store"
  glx_create_drawable ::
    "drawable_store \<Rightarrow> display option \<Rightarrow> ctx_ptr \<Rightarrow> XID \<Rightarrow>
       bool \<times> agd_ptr option \<times> drawable_store"
  glx_garbage_collect_drawables :: "drawable_store \<Rightarrow> display option \<Rightarrow> drawable_store"
  pthread_self :: pthread_t

definition emit :: "event \<Rightarrow> state \<Rightarrow> state" where
  "emit e s = s\<lparr>trace := trace s @ [e]\<rparr>"

definition call_set_current_context ::
  "env \<Rightarrow> CGLContextObj option \<Rightarrow> state \<Rightarrow> int \<times> state" where
  "call_set_current_context E obj s =
     (cgl_set_current_context E obj,
      emit (Call_set_current_context obj (cgl_set_current_context E obj)) s)"

definition call_clear_drawable ::
  "env \<Rightarrow> CGLContextObj option \<Rightarrow> state \<Rightarrow> int \<times> state" where
  "call_clear_drawable E obj s =
     (cgl_clear_drawable E obj, emit (Call_clear_drawable obj (cgl_clear_drawable E obj)) s)"

definition call_destroy_pixel_format ::
  "env \<Rightarrow> CGLPixelFormatObj option \<Rightarrow> state \<Rightarrow> int \<times> state" where
  "call_destroy_pixel_format E pf s =
     (cgl_destroy_pixel_format E pf,
      emit (Call_destroy_pixel_format pf (cgl_destroy_pixel_format E pf)) s)"

definition call_destroy_context ::
  "env \<Rightarrow> CGLContextObj option \<Rightarrow> state \<Rightarrow> int \<times> state" where
  "call_destroy_context E obj s =
     (cgl_destroy_context E obj, emit (Call_destroy_context obj (cgl_destroy_context E obj)) s)"

definition call_xp_attach_gl_context ::
  "env \<Rightarrow> CGLContextObj option \<Rightarrow> xp_surface_id \<Rightarrow> state \<Rightarrow> int \<times> state" where
  "call_xp_attach_gl_context E obj sid s =
     (xp_attach_gl_context E obj sid,
      emit (Call_xp_attach_gl_context obj sid (xp_attach_gl_context E obj sid)) s)"

definition call_release_drawable :: "env \<Rightarrow> agd_ptr \<Rightarrow> state \<Rightarrow> state" where
  "call_release_drawable E d s =
     emit (Call_release_drawable d) (s\<lparr>drawables := glx_release_drawable E (drawables s) d\<rparr>)"

definition call_destroy_drawable :: "env \<Rightarrow> agd_ptr \<Rightarrow> state \<Rightarrow> bool \<times> state" where
  "call_destroy_drawable E d s =
     (case glx_destroy_drawable E (drawables s) d of
        (r, ds) \<Rightarrow> (r, emit (Call_destroy_drawable d r) (s\<lparr>drawables := ds\<rparr>)))"

definition call_find_drawable ::
  "env \<Rightarrow> display option \<Rightarrow> XID \<Rightarrow> state \<Rightarrow> agd_ptr option \<times> state" where
  "call_find_drawable E dpy x s =
     (case glx_find_drawable E (drawables s) dpy x of
        (r, ds) \<Rightarrow> (r, emit (Call_find_drawable dpy x r) (s\<lparr>drawables := ds\<rparr>)))"

definition call_create_drawable ::
  "env \<Rightarrow> display option \<Rightarrow> ctx_ptr \<Rightarrow> XID \<Rightarrow> state \<Rightarrow> (bool \<times> agd_ptr option) \<times> state" where
  "call_create_drawable E dpy ac x s =
     (case glx_create_drawable E (drawables s) dpy ac x of
        (err, agd, ds) \<Rightarrow>
          ((err, agd), emit (Call_create_drawable dpy ac x err agd) (s\<lparr>drawables := ds\<rparr>)))"

definition call_garbage_collect_drawables :: "env \<Rightarrow> display option \<Rightarrow> state \<Rightarrow> state" where
  "call_garbage_collect_drawables E dpy s =
     emit (Call_garbage_collect_drawables dpy)
       (s\<lparr>drawables := glx_garbage_collect_drawables E (drawables s) dpy\<rparr>)"

definition call_XAppleDRIDestroySurface ::
  "display option \<Rightarrow> int \<Rightarrow> XID \<Rightarrow> state \<Rightarrow> state" where
  "call_XAppleDRIDestroySurface dpy scr x s = emit (Call_XAppleDRIDestroySurface dpy scr x) s"

text \<open>\<open>free(ac)\<close>: the object at the address is gone.\<close>

definition call_free :: "ctx_ptr \<Rightarrow> state \<Rightarrow> state" where
  "call_free a s = emit (Call_free a) (s\<lparr>heap := (heap s)(a := None)\<rparr>)"

subsection \<open>The mutex\<close>

text \<open>
  \<open>lock_context_list\<close> and \<open>unlock_context_list\<close> call \<open>abort()\<close> when the pthread call
  returns an error. With one thread, locking fails when the mutex is already held (the
  comment in \<open>apple_glx_destroy_context\<close>: "an abort due to an attempted deadlock") and
  unlocking fails when it is not held.
\<close>

definition lock_context_list :: "state \<Rightarrow> (error + unit) \<times> state" where
  "lock_context_list s =
     (if context_lock s then (Inl Abort, s)
      else (Inr (), emit Lock (s\<lparr>context_lock := True\<rparr>)))"

definition unlock_context_list :: "state \<Rightarrow> (error + unit) \<times> state" where
  "unlock_context_list s =
     (if context_lock s then (Inr (), emit Unlock (s\<lparr>context_lock := False\<rparr>))
      else (Inl Abort, s))"

subsection \<open>Stores into the registry and into a context\<close>

definition store_context_list :: "ctx_ptr option \<Rightarrow> state \<Rightarrow> state" where
  "store_context_list v s = emit (Store_context_list v) (s\<lparr>context_list := v\<rparr>)"

definition store_next :: "ctx_ptr \<Rightarrow> ctx_ptr option \<Rightarrow> state \<Rightarrow> (error + unit) \<times> state" where
  "store_next p v s =
     (case heap s p of
        None \<Rightarrow> (Inl Fault, s)
      | Some c \<Rightarrow>
          (Inr (), emit (Store_next p v) (s\<lparr>heap := (heap s)(p \<mapsto> c\<lparr>next_ptr := v\<rparr>)\<rparr>)))"

definition store_previous ::
  "ctx_ptr \<Rightarrow> ctx_ptr option \<Rightarrow> state \<Rightarrow> (error + unit) \<times> state" where
  "store_previous p v s =
     (case heap s p of
        None \<Rightarrow> (Inl Fault, s)
      | Some c \<Rightarrow>
          (Inr (), emit (Store_previous p v) (s\<lparr>heap := (heap s)(p \<mapsto> c\<lparr>previous := v\<rparr>)\<rparr>)))"

definition store_drawable ::
  "ctx_ptr \<Rightarrow> agd_ptr option \<Rightarrow> state \<Rightarrow> (error + unit) \<times> state" where
  "store_drawable p v s =
     (case heap s p of
        None \<Rightarrow> (Inl Fault, s)
      | Some c \<Rightarrow>
          (Inr (), emit (Store_drawable p v) (s\<lparr>heap := (heap s)(p \<mapsto> c\<lparr>drawable := v\<rparr>)\<rparr>)))"

definition store_thread_id :: "ctx_ptr \<Rightarrow> pthread_t \<Rightarrow> state \<Rightarrow> (error + unit) \<times> state" where
  "store_thread_id p v s =
     (case heap s p of
        None \<Rightarrow> (Inl Fault, s)
      | Some c \<Rightarrow>
          (Inr (), emit (Store_thread_id p v) (s\<lparr>heap := (heap s)(p \<mapsto> c\<lparr>thread_id := v\<rparr>)\<rparr>)))"

subsection \<open>apple\_glx\_destroy\_context\<close>

text \<open>
  The argument \<open>ptr\<close> is the content of \<open>*ptr\<close> at entry; the result is its content at
  return. The steps follow the statements of the function in order. The body is written
  in two parts: \<open>destroy_unlink\<close> is the critical section (from \<open>lock_context_list()\<close> to
  \<open>unlock_context_list()\<close>), \<open>destroy_teardown\<close> is what follows it up to \<open>free(ac)\<close>.
  A failed \<open>fprintf\<close> or \<open>perror\<close> is not modelled.
\<close>

definition destroy_unlink ::
  "ctx_ptr \<Rightarrow> state \<Rightarrow> (error + apple_glx_context) \<times> state" where
  "destroy_unlink a s =
     (case lock_context_list s of
        (Inl e, s1) \<Rightarrow> (Inl e, s1)
      | (Inr _, s1) \<Rightarrow>
     (case heap s1 a of
        None \<Rightarrow> (Inl Fault, s1)
      | Some ac \<Rightarrow>
     (case (case previous ac of
              Some p \<Rightarrow> store_next p (next_ptr ac) s1
            | None \<Rightarrow> (Inr (), store_context_list (next_ptr ac) s1)) of
        (Inl e, s2) \<Rightarrow> (Inl e, s2)
      | (Inr _, s2) \<Rightarrow>
     (case heap s2 a of
        None \<Rightarrow> (Inl Fault, s2)
      | Some ac2 \<Rightarrow>
     (case (case next_ptr ac2 of
              Some n \<Rightarrow> store_previous n (previous ac2) s2
            | None \<Rightarrow> (Inr (), s2)) of
        (Inl e, s3) \<Rightarrow> (Inl e, s3)
      | (Inr _, s3) \<Rightarrow>
     (case unlock_context_list s3 of
        (Inl e, s4) \<Rightarrow> (Inl e, s4)
      | (Inr _, s4) \<Rightarrow>
     (case heap s4 a of
        None \<Rightarrow> (Inl Fault, s4)
      | Some ac4 \<Rightarrow> (Inr ac4, s4))))))))"

definition destroy_teardown ::
  "env \<Rightarrow> ctx_ptr \<Rightarrow> apple_glx_context \<Rightarrow> display option \<Rightarrow> state \<Rightarrow>
     (error + unit) \<times> state" where
  "destroy_teardown E a ac dpy s4 =
     (case call_clear_drawable E (context_obj ac) s4 of (r5, s5) \<Rightarrow>
      if r5 \<noteq> 0 then (Inl Abort, s5) else
     (case (case drawable ac of
              None \<Rightarrow> (Inr (), s5)
            | Some d \<Rightarrow>
                (case drawables s5 d of
                   None \<Rightarrow> (Inl Fault, s5)
                 | Some agd \<Rightarrow>
                     (case call_destroy_drawable E d s5 of (last_ref, s6) \<Rightarrow>
                        if last_ref
                        then (Inr (),
                              call_XAppleDRIDestroySurface dpy (screen ac) (agd_drawable agd) s6)
                        else (Inr (), s6)))) of
        (Inl e, s7) \<Rightarrow> (Inl e, s7)
      | (Inr _, s7) \<Rightarrow>
     (case call_destroy_pixel_format E (pixel_format_obj ac) s7 of (r8, s8) \<Rightarrow>
      if r8 \<noteq> 0 then (Inl Abort, s8) else
     (case call_destroy_context E (context_obj ac) s8 of (r9, s9) \<Rightarrow>
      if r9 \<noteq> 0 then (Inl Abort, s9) else
      (Inr (), call_free a s9)))))"

definition apple_glx_destroy_context ::
  "env \<Rightarrow> ctx_ptr option \<Rightarrow> display option \<Rightarrow> state \<Rightarrow>
     (error + ctx_ptr option) \<times> state" where
  "apple_glx_destroy_context E ptr dpy s =
     (case ptr of
        None \<Rightarrow> (Inr None, s)
      | Some a \<Rightarrow>
     (case call_set_current_context E None s of (r0, s0) \<Rightarrow>
      if r0 \<noteq> 0 then (Inl Abort, s0) else
     (case destroy_unlink a s0 of
        (Inl e, s4) \<Rightarrow> (Inl e, s4)
      | (Inr ac, s4) \<Rightarrow>
     (case destroy_teardown E a ac dpy s4 of
        (Inl e, s10) \<Rightarrow> (Inl e, s10)
      | (Inr _, s10) \<Rightarrow> (Inr None, call_garbage_collect_drawables E dpy s10)))))"

subsection \<open>apple\_glx\_make\_current\_context\<close>

text \<open>
  The result is the returned \<open>bool\<close>: \<open>True\<close> when an error occurred. A failed \<open>assert\<close>
  ends in \<open>abort()\<close>. \<open>ac\<close> is loaded once: of its fields the function reads \<open>drawable\<close>
  before it stores anything, and \<open>context_obj\<close>, which nothing stores into.
  The body is written in four parts, in the order of the source:
  \<open>make_current_none\<close> is the branch \<open>None == drawable\<close>;
  \<open>release_old_drawable\<close> is the block under "Release the reference to the old drawable";
  \<open>find_or_create_drawable\<close> runs from \<open>apple_glx_find_drawable\<close> to the end of the
  block \<open>NULL == agd\<close>, and returns whether the function has to return \<open>true\<close> there,
  together with \<open>agd\<close>; \<open>attach_and_set_current\<close> runs from \<open>ac->drawable = agd\<close> to the
  end. \<open>apple_glx_create_drawable\<close> returns its error flag and what it left in \<open>agd\<close>.
\<close>

definition make_current_none :: "env \<Rightarrow> apple_glx_context \<Rightarrow> state \<Rightarrow> (error + bool) \<times> state" where
  "make_current_none E ac s =
     (case call_clear_drawable E (context_obj ac) s of (r1, s1) \<Rightarrow>
      if r1 \<noteq> 0 then (Inr True, s1) else
     (case call_set_current_context E (context_obj ac) s1 of (r2, s2) \<Rightarrow>
      if r2 \<noteq> 0 then (Inr True, s2) else (Inr False, s2)))"

definition release_old_drawable ::
  "env \<Rightarrow> ctx_ptr \<Rightarrow> apple_glx_context \<Rightarrow> state \<Rightarrow> (error + unit) \<times> state" where
  "release_old_drawable E a ac s =
     (case drawable ac of
        None \<Rightarrow> (Inr (), s)
      | Some old \<Rightarrow> store_drawable a None (call_release_drawable E old s))"

definition find_or_create_drawable ::
  "env \<Rightarrow> display option \<Rightarrow> ctx_ptr \<Rightarrow> XID \<Rightarrow> state \<Rightarrow> (bool \<times> agd_ptr option) \<times> state" where
  "find_or_create_drawable E dpy a x s =
     (case call_find_drawable E dpy x s of (found, s2) \<Rightarrow>
        (case found of
           Some p \<Rightarrow> ((False, Some p), s2)
         | None \<Rightarrow> call_create_drawable E dpy a x s2))"

definition attach_and_set_current ::
  "env \<Rightarrow> ctx_ptr \<Rightarrow> apple_glx_context \<Rightarrow> agd_ptr option \<Rightarrow> state \<Rightarrow> (error + bool) \<times> state" where
  "attach_and_set_current E a ac agd s3 =
     (case store_drawable a agd s3 of
        (Inl e, s4) \<Rightarrow> (Inl e, s4)
      | (Inr _, s4) \<Rightarrow>
     (case agd of
        None \<Rightarrow> (Inl Fault, s4)
      | Some p \<Rightarrow>
     (case drawables s4 p of
        None \<Rightarrow> (Inl Fault, s4)
      | Some r \<Rightarrow>
     (case call_xp_attach_gl_context E (context_obj ac) (surface_id r) s4 of (xerr, s5) \<Rightarrow>
      if xerr \<noteq> 0 then (Inr True, s5) else
     (case call_set_current_context E (context_obj ac) s5 of (cglerr, s6) \<Rightarrow>
      if cglerr \<noteq> 0 then (Inr True, s6) else
     (case store_thread_id a (pthread_self E) s6 of
        (Inl e, s7) \<Rightarrow> (Inl e, s7)
      | (Inr _, s7) \<Rightarrow> (Inr False, s7)))))))"

definition apple_glx_make_current_context ::
  "env \<Rightarrow> display option \<Rightarrow> ctx_ptr option \<Rightarrow> XID \<Rightarrow> state \<Rightarrow> (error + bool) \<times> state" where
  "apple_glx_make_current_context E dpy ptr x s =
     (case dpy of
        None \<Rightarrow> (Inl Abort, s)
      | Some _ \<Rightarrow>
     (case ptr of
        None \<Rightarrow> (Inl Abort, s)
      | Some a \<Rightarrow>
     (case heap s a of
        None \<Rightarrow> (Inl Fault, s)
      | Some ac \<Rightarrow>
      if x = None_XID then make_current_none E ac s
      else
     (case release_old_drawable E a ac s of
        (Inl e, s1) \<Rightarrow> (Inl e, s1)
      | (Inr _, s1) \<Rightarrow>
     (case find_or_create_drawable E dpy a x s1 of ((err, agd), s3) \<Rightarrow>
      if err then (Inr True, s3) else attach_and_set_current E a ac agd s3)))))"

subsection \<open>apple\_glx\_get\_surface\_from\_uid\<close>

text \<open>
  The \<open>for\<close> loop follows \<open>next\<close> from \<open>context_list\<close>; on a list that runs into itself
  it does not end, so the loop is a partial function and \<open>None\<close> stands for a call that
  does not return. The result is the returned \<open>bool\<close> (\<open>True\<close>: nothing found) and what
  was stored into \<open>*sid\<close> and \<open>*contextobj\<close>, if anything.
\<close>

partial_function (option) get_surface_loop ::
  "nat \<Rightarrow> ctx_ptr option \<Rightarrow> state \<Rightarrow>
     ((error + bool \<times> (xp_surface_id \<times> CGLContextObj option) option) \<times> state) option" where
  "get_surface_loop u p s =
     (case p of
        None \<Rightarrow>
          (case unlock_context_list s of
             (Inl e, s') \<Rightarrow> Some (Inl e, s')
           | (Inr _, s') \<Rightarrow> Some (Inr (True, None), s'))
      | Some a \<Rightarrow>
          (case heap s a of
             None \<Rightarrow> Some (Inl Fault, s)
           | Some ac \<Rightarrow>
               (case drawable ac of
                  None \<Rightarrow> get_surface_loop u (next_ptr ac) (emit (Load_context a) s)
                | Some d \<Rightarrow>
                    (case drawables s d of
                       None \<Rightarrow> Some (Inl Fault, emit (Load_context a) s)
                     | Some agd \<Rightarrow>
                         if uid agd = u then
                           (case unlock_context_list (emit (Load_context a) s) of
                              (Inl e, s') \<Rightarrow> Some (Inl e, s')
                            | (Inr _, s') \<Rightarrow>
                                Some (Inr (False, Some (surface_id agd, context_obj ac)), s'))
                         else get_surface_loop u (next_ptr ac) (emit (Load_context a) s)))))"

definition apple_glx_get_surface_from_uid ::
  "nat \<Rightarrow> state \<Rightarrow>
     ((error + bool \<times> (xp_surface_id \<times> CGLContextObj option) option) \<times> state) option" where
  "apple_glx_get_surface_from_uid u s =
     (case lock_context_list s of
        (Inl e, s1) \<Rightarrow> Some (Inl e, s1)
      | (Inr _, s1) \<Rightarrow> get_surface_loop u (context_list s1) s1)"

subsection \<open>Reading a trace\<close>

text \<open>
  The teardown calls of \<open>apple_glx_destroy_context\<close>: destroying the drawable, the
  AppleDRI surface, the pixel format and the CGL context.
\<close>

fun is_teardown :: "event \<Rightarrow> bool" where
  "is_teardown (Call_destroy_drawable _ _) = True"
| "is_teardown (Call_XAppleDRIDestroySurface _ _ _) = True"
| "is_teardown (Call_destroy_pixel_format _ _) = True"
| "is_teardown (Call_destroy_context _ _) = True"
| "is_teardown _ = False"

text \<open>The stores that change the list: into \<open>context_list\<close>, \<open>next\<close> or \<open>previous\<close>.\<close>

fun is_registry_store :: "event \<Rightarrow> bool" where
  "is_registry_store (Store_context_list _) = True"
| "is_registry_store (Store_next _ _) = True"
| "is_registry_store (Store_previous _ _) = True"
| "is_registry_store _ = False"

text \<open>
  \<open>held_after held es\<close>: whether the mutex is held after the events \<open>es\<close>, when \<open>held\<close>
  says whether it was held before them.
\<close>

fun held_after :: "bool \<Rightarrow> event list \<Rightarrow> bool" where
  "held_after held [] = held"
| "held_after held (Lock # es) = held_after True es"
| "held_after held (Unlock # es) = held_after False es"
| "held_after held (_ # es) = held_after held es"

text \<open>
  \<open>lock_discipline held es\<close>: along \<open>es\<close> the mutex is taken only when free and released
  only when held, every store into the list happens with the mutex held, and every teardown
  call happens with the mutex not held.
\<close>

fun lock_discipline :: "bool \<Rightarrow> event list \<Rightarrow> bool" where
  "lock_discipline held [] = True"
| "lock_discipline held (Lock # es) = (\<not> held \<and> lock_discipline True es)"
| "lock_discipline held (Unlock # es) = (held \<and> lock_discipline False es)"
| "lock_discipline held (e # es) =
     ((if is_teardown e then \<not> held else True) \<and>
      (if is_registry_store e then held else True) \<and>
      lock_discipline held es)"

text \<open>
  The attachment of one context \<open>a\<close> along a trace. The pair is the value of
  \<open>a->drawable\<close> and whether the reference it names has been released. A release must name
  the drawable that is attached and not yet released; \<open>NULL\<close> is stored over an attached
  drawable only after its release; a drawable is stored, found or created only while
  \<open>a->drawable\<close> is \<open>NULL\<close>. The result is \<open>None\<close> as soon as one of these fails.
\<close>

fun attach_step ::
  "ctx_ptr \<Rightarrow> agd_ptr option \<times> bool \<Rightarrow> event \<Rightarrow> (agd_ptr option \<times> bool) option" where
  "attach_step a (cur, rel) (Call_release_drawable d) =
     (if cur = Some d \<and> \<not> rel then Some (cur, True) else None)"
| "attach_step a (cur, rel) (Store_drawable b v) =
     (if b \<noteq> a then Some (cur, rel)
      else if v = None then (if cur = None \<or> rel then Some (None, False) else None)
      else (if cur = None then Some (v, False) else None))"
| "attach_step a (cur, rel) (Call_find_drawable _ _ _) =
     (if cur = None then Some (cur, rel) else None)"
| "attach_step a (cur, rel) (Call_create_drawable _ _ _ _ _) =
     (if cur = None then Some (cur, rel) else None)"
| "attach_step a (cur, rel) _ = Some (cur, rel)"

fun attach_run ::
  "ctx_ptr \<Rightarrow> agd_ptr option \<times> bool \<Rightarrow> event list \<Rightarrow> (agd_ptr option \<times> bool) option" where
  "attach_run a st [] = Some st"
| "attach_run a st (e # es) =
     (case attach_step a st e of None \<Rightarrow> None | Some st' \<Rightarrow> attach_run a st' es)"

text \<open>The calls of the AppleDRI surface teardown in a trace.\<close>

fun is_destroy_surface :: "event \<Rightarrow> bool" where
  "is_destroy_surface (Call_XAppleDRIDestroySurface _ _ _) = True"
| "is_destroy_surface _ = False"

text \<open>The calls of \<open>apple_glx_destroy_drawable\<close> in a trace.\<close>

fun is_destroy_drawable :: "event \<Rightarrow> bool" where
  "is_destroy_drawable (Call_destroy_drawable _ _) = True"
| "is_destroy_drawable _ = False"

subsection \<open>The list in memory\<close>

text \<open>
  \<open>fwd_chain h p as\<close>: following \<open>next\<close> from the pointer \<open>p\<close> visits exactly the contexts
  at the addresses \<open>as\<close>, in this order, and then reaches \<open>NULL\<close>.
  \<open>back_chain h q as\<close>: the \<open>previous\<close> field of the first of \<open>as\<close> is \<open>q\<close> and that
  of each other one is the address before it. \<open>registry\<close> is the list as
  \<open>apple_glx_create_context\<close> builds it.
\<close>

fun fwd_chain ::
  "(ctx_ptr \<Rightarrow> apple_glx_context option) \<Rightarrow> ctx_ptr option \<Rightarrow> ctx_ptr list \<Rightarrow> bool" where
  "fwd_chain h p [] = (p = None)"
| "fwd_chain h p (a # as) =
     (p = Some a \<and> (case h a of None \<Rightarrow> False | Some c \<Rightarrow> fwd_chain h (next_ptr c) as))"

fun back_chain ::
  "(ctx_ptr \<Rightarrow> apple_glx_context option) \<Rightarrow> ctx_ptr option \<Rightarrow> ctx_ptr list \<Rightarrow> bool" where
  "back_chain h q [] = True"
| "back_chain h q (a # as) =
     (case h a of None \<Rightarrow> False | Some c \<Rightarrow> previous c = q \<and> back_chain h (Some a) as)"

definition registry ::
  "(ctx_ptr \<Rightarrow> apple_glx_context option) \<Rightarrow> ctx_ptr option \<Rightarrow> ctx_ptr list \<Rightarrow> bool" where
  "registry h p as = (fwd_chain h p as \<and> back_chain h None as)"

text \<open>
  What the scan tests at the context at address \<open>a\<close>, and what it stores into \<open>*sid\<close> and
  \<open>*contextobj\<close> there. \<open>drawable_ok\<close>: the \<open>drawable\<close> pointer of the context is \<open>NULL\<close>
  or points to a drawable record.
\<close>

definition owner_is ::
  "(ctx_ptr \<Rightarrow> apple_glx_context option) \<Rightarrow> (agd_ptr \<Rightarrow> apple_glx_drawable option) \<Rightarrow>
     nat \<Rightarrow> ctx_ptr \<Rightarrow> bool" where
  "owner_is h ds u a =
     (case h a of
        None \<Rightarrow> False
      | Some ac \<Rightarrow>
          (case drawable ac of
             None \<Rightarrow> False
           | Some d \<Rightarrow> (case ds d of None \<Rightarrow> False | Some agd \<Rightarrow> uid agd = u)))"

definition owner_result ::
  "(ctx_ptr \<Rightarrow> apple_glx_context option) \<Rightarrow> (agd_ptr \<Rightarrow> apple_glx_drawable option) \<Rightarrow>
     ctx_ptr \<Rightarrow> (xp_surface_id \<times> CGLContextObj option) option" where
  "owner_result h ds a =
     (case h a of
        None \<Rightarrow> None
      | Some ac \<Rightarrow>
          (case drawable ac of
             None \<Rightarrow> None
           | Some d \<Rightarrow>
               (case ds d of None \<Rightarrow> None | Some agd \<Rightarrow> Some (surface_id agd, context_obj ac))))"

definition drawable_ok ::
  "(ctx_ptr \<Rightarrow> apple_glx_context option) \<Rightarrow> (agd_ptr \<Rightarrow> apple_glx_drawable option) \<Rightarrow>
     ctx_ptr \<Rightarrow> bool" where
  "drawable_ok h ds a =
     (case h a of
        None \<Rightarrow> False
      | Some ac \<Rightarrow> (case drawable ac of None \<Rightarrow> True | Some d \<Rightarrow> ds d \<noteq> None))"

text \<open>\<open>bound_to s a x\<close>: the context at \<open>a\<close> is attached to a record of the drawable \<open>x\<close>.\<close>

definition bound_to :: "state \<Rightarrow> ctx_ptr \<Rightarrow> XID \<Rightarrow> bool" where
  "bound_to s a x =
     (case heap s a of
        None \<Rightarrow> False
      | Some ac \<Rightarrow>
          (case drawable ac of
             None \<Rightarrow> False
           | Some d \<Rightarrow> (case drawables s d of None \<Rightarrow> False | Some agd \<Rightarrow> agd_drawable agd = x)))"

text \<open>
  The contexts the scan loads: those of the list up to and with the first one for which
  the test \<open>P\<close> holds.
\<close>

fun scan_prefix :: "(ctx_ptr \<Rightarrow> bool) \<Rightarrow> ctx_ptr list \<Rightarrow> ctx_ptr list" where
  "scan_prefix P [] = []"
| "scan_prefix P (a # as) = (if P a then [a] else a # scan_prefix P as)"

subsection \<open>Sequences of calls\<close>

text \<open>
  A sequence of calls of \<open>apple_glx_make_current_context\<close> on the context at \<open>a\<close>, each
  with its own environment, display and drawable. The sequence goes on whatever a call
  returns, and ends when a call does not return.
\<close>

fun make_current_calls :: "(env \<times> display option \<times> XID) list \<Rightarrow> ctx_ptr \<Rightarrow> state \<Rightarrow> state" where
  "make_current_calls [] a s = s"
| "make_current_calls ((E, dpy, x) # cs) a s =
     (case apple_glx_make_current_context E dpy (Some a) x s of
        (Inl e, s') \<Rightarrow> s'
      | (Inr b, s') \<Rightarrow> make_current_calls cs a s')"

text \<open>
  What a healthy native layer means for a call that binds the drawable \<open>x\<close>:
  \<open>set_current_context\<close> and \<open>xp_attach_gl_context\<close> return 0, and, whatever the memory
  of the drawable records holds, \<open>apple_glx_find_drawable\<close> returns a record of \<open>x\<close> or
  returns \<open>NULL\<close> and then \<open>apple_glx_create_drawable\<close> succeeds with a record of \<open>x\<close>.
\<close>

definition resolves :: "env \<Rightarrow> display option \<Rightarrow> ctx_ptr \<Rightarrow> XID \<Rightarrow> drawable_store \<Rightarrow> bool" where
  "resolves E dpy a x ds =
     (case glx_find_drawable E ds dpy x of
        (Some p, ds') \<Rightarrow> (case ds' p of None \<Rightarrow> False | Some agd \<Rightarrow> agd_drawable agd = x)
      | (None, ds') \<Rightarrow>
          (case glx_create_drawable E ds' dpy a x of
             (err, None, ds'') \<Rightarrow> False
           | (err, Some p, ds'') \<Rightarrow>
               \<not> err \<and> (case ds'' p of None \<Rightarrow> False | Some agd \<Rightarrow> agd_drawable agd = x)))"

definition healthy :: "env \<Rightarrow> display option \<Rightarrow> ctx_ptr \<Rightarrow> XID \<Rightarrow> bool" where
  "healthy E dpy a x =
     ((\<forall>obj. cgl_set_current_context E obj = 0) \<and>
      (\<forall>obj sid. xp_attach_gl_context E obj sid = 0) \<and>
      (\<forall>ds. resolves E dpy a x ds))"

text \<open>
  The events of one full cycle of a call that binds the drawable \<open>x\<close> to a context attached
  to the record \<open>old\<close>: release, store \<open>NULL\<close>, find (and create when nothing was found),
  store the record \<open>p\<close>, attach, set current, store the thread.
\<close>

definition rebind_events ::
  "ctx_ptr \<Rightarrow> agd_ptr \<Rightarrow> display option \<Rightarrow> XID \<Rightarrow> agd_ptr option \<Rightarrow> agd_ptr \<Rightarrow>
     CGLContextObj option \<Rightarrow> xp_surface_id \<Rightarrow> pthread_t \<Rightarrow> event list" where
  "rebind_events a old dpy x found p obj sid t =
     [Call_release_drawable old, Store_drawable a None, Call_find_drawable dpy x found] @
     (case found of None \<Rightarrow> [Call_create_drawable dpy a x False (Some p)] | Some _ \<Rightarrow> []) @
     [Store_drawable a (Some p), Call_xp_attach_gl_context obj sid 0,
      Call_set_current_context obj 0, Store_thread_id a t]"

subsection \<open>The reference count of the drawable manager\<close>

text \<open>
  Modelled from the spec: \<open>apple_glx_destroy_drawable\<close> and
  \<open>apple_glx_garbage_collect_drawables\<close> are defined in apple\_glx\_drawable.c, which is
  not among the sources. The spec calls the drawable record reference-counted, each context
  holding one reference to the record it is attached to, and says of the manager:
  "release decrements a reference count; destroy reports whether the last reference was
  released". \<open>counted_destroy\<close> gives up one reference: on the last one it reports \<open>True\<close>
  and the record is gone, otherwise it reports \<open>False\<close> and the record stays with its count
  lowered by one. An environment is \<open>reference_counting\<close> when its
  \<open>apple_glx_destroy_drawable\<close> is \<open>counted_destroy\<close> and its garbage collection leaves
  every record alone that still has a reference.
\<close>

definition counted_destroy :: "drawable_store \<Rightarrow> agd_ptr \<Rightarrow> bool \<times> drawable_store" where
  "counted_destroy ds d =
     (case ds d of
        None \<Rightarrow> (False, ds)
      | Some agd \<Rightarrow>
          if reference_count agd \<le> 1 then (True, ds(d := None))
          else (False, ds(d \<mapsto> agd\<lparr>reference_count := reference_count agd - 1\<rparr>)))"

definition reference_counting :: "env \<Rightarrow> bool" where
  "reference_counting E =
     (glx_destroy_drawable E = counted_destroy \<and>
      (\<forall>ds dpy d agd. ds d = Some agd \<and> 0 < reference_count agd \<longrightarrow>
         glx_garbage_collect_drawables E ds dpy d = Some agd))"

text \<open>
  A sequence of calls of \<open>apple_glx_destroy_context\<close>, each with its own environment,
  on the context at the given address and with the given display. The sequence ends when a
  call does not return.
\<close>

fun destroy_calls :: "(env \<times> ctx_ptr \<times> display option) list \<Rightarrow> state \<Rightarrow> state" where
  "destroy_calls [] s = s"
| "destroy_calls ((E, a, dpy) # cs) s =
     (case apple_glx_destroy_context E (Some a) dpy s of
        (Inl e, s') \<Rightarrow> s'
      | (Inr h, s') \<Rightarrow> destroy_calls cs s')"

text \<open>
  The calls of \<open>apple_glx_destroy_drawable\<close> and \<open>XAppleDRIDestroySurface\<close> to expect
  when the contexts of \<open>cs\<close>, which hold all the references to the record at \<open>d\<close> of the
  drawable \<open>x\<close>, are destroyed in this order: each destroy but the last gives up a
  reference and is told \<open>False\<close>; the last is told \<open>True\<close> and tears the surface down,
  with its display and the screen of its context (\<open>h\<close> is the memory of the contexts before
  the first call).
\<close>

fun sharing_teardown ::
  "(ctx_ptr \<Rightarrow> apple_glx_context option) \<Rightarrow> agd_ptr \<Rightarrow> XID \<Rightarrow>
     (env \<times> ctx_ptr \<times> display option) list \<Rightarrow> event list" where
  "sharing_teardown h d x [] = []"
| "sharing_teardown h d x ((E, a, dpy) # cs) =
     (if cs = [] then
        (case h a of
           None \<Rightarrow> []
         | Some ac \<Rightarrow>
             [Call_destroy_drawable d True, Call_XAppleDRIDestroySurface dpy (screen ac) x])
      else Call_destroy_drawable d False # sharing_teardown h d x cs)"

text \<open>\<open>attached_to h a d\<close>: the context at \<open>a\<close> has \<open>drawable\<close> pointing to \<open>d\<close>.\<close>

definition attached_to :: "(ctx_ptr \<Rightarrow> apple_glx_context option) \<Rightarrow> ctx_ptr \<Rightarrow> agd_ptr \<Rightarrow> bool" where
  "attached_to h a d = (case h a of None \<Rightarrow> False | Some ac \<Rightarrow> drawable ac = Some d)"

subsection \<open>Example inputs\<close>

text \<open>
  An environment in which every outside call succeeds. Its drawable manager keeps the record
  of the drawable \<open>x\<close> at the address \<open>x\<close>, creates a record that is not there, keeps
  every record on release, and reports the last reference on destroy.
\<close>

definition example_agd :: "XID \<Rightarrow> apple_glx_drawable" where
  "example_agd x =
     \<lparr>agd_drawable = x, uid = 100 + x, surface_id = 200 + x, reference_count = 1\<rparr>"

definition example_env :: env where
  "example_env =
     \<lparr>cgl_set_current_context = (\<lambda>obj. 0),
      cgl_clear_drawable = (\<lambda>obj. 0),
      cgl_destroy_pixel_format = (\<lambda>pf. 0),
      cgl_destroy_context = (\<lambda>obj. 0),
      xp_attach_gl_context = (\<lambda>obj sid. 0),
      glx_release_drawable = (\<lambda>ds d. ds),
      glx_destroy_drawable = (\<lambda>ds d. (True, ds(d := None))),
      glx_find_drawable =
        (\<lambda>ds dpy x. (if map_option agd_drawable (ds x) = Some x then Some x else None, ds)),
      glx_create_drawable = (\<lambda>ds dpy a x. (False, Some x, ds(x \<mapsto> example_agd x))),
      glx_garbage_collect_drawables = (\<lambda>ds dpy. ds),
      pthread_self = 7\<rparr>"

text \<open>The same environment, but \<open>xp_attach_gl_context\<close> answers with the error code 1.\<close>

definition attach_failing_env :: env where
  "attach_failing_env = example_env\<lparr>xp_attach_gl_context := (\<lambda>obj sid. 1)\<rparr>"

text \<open>
  One context at address 1, alone on the list, made by another thread (3), on screen 0;
  \<open>d\<close> is its \<open>drawable\<close> pointer, and the record it points to exists.
\<close>

definition example_ctx :: "agd_ptr option \<Rightarrow> apple_glx_context" where
  "example_ctx d =
     \<lparr>context_obj = Some 11, pixel_format_obj = Some 21, drawable = d, thread_id = 3,
      screen = 0, double_buffered = True, previous = None, next_ptr = None\<rparr>"

definition example_state :: "agd_ptr option \<Rightarrow> state" where
  "example_state d =
     \<lparr>heap = [1 \<mapsto> example_ctx d],
      context_list = Some 1,
      context_lock = False,
      drawables = (case d of None \<Rightarrow> Map.empty | Some p \<Rightarrow> [p \<mapsto> example_agd p]),
      trace = []\<rparr>"

text \<open>
  Three contexts on the list, in the order 3, 2, 1 (the last one created is the head):
  3 has no drawable, 2 is attached to drawable 20 and 1 to drawable 10.
\<close>

definition three_contexts :: state where
  "three_contexts =
     \<lparr>heap = [1 \<mapsto> (example_ctx (Some 10))\<lparr>previous := Some 2\<rparr>,
              2 \<mapsto> (example_ctx (Some 20))\<lparr>context_obj := Some 12, previous := Some 3,
                     next_ptr := Some 1\<rparr>,
              3 \<mapsto> (example_ctx None)\<lparr>context_obj := Some 13, next_ptr := Some 2\<rparr>],
      context_list = Some 3,
      context_lock = False,
      drawables = [10 \<mapsto> example_agd 10, 20 \<mapsto> example_agd 20],
      trace = []\<rparr>"

text \<open>
  The environment of the examples with the reference counting of \<open>counted_destroy\<close>, and
  two contexts on the list, 2 and then 1, on screens 0 and 5, both attached to the record
  of drawable 10, which has two references.
\<close>

definition counting_env :: env where
  "counting_env = example_env\<lparr>glx_destroy_drawable := counted_destroy\<rparr>"

definition two_sharing :: state where
  "two_sharing =
     \<lparr>heap = [1 \<mapsto> (example_ctx (Some 10))\<lparr>previous := Some 2, screen := 5\<rparr>,
              2 \<mapsto> (example_ctx (Some 10))\<lparr>context_obj := Some 12, next_ptr := Some 1\<rparr>],
      context_list = Some 2,
      context_lock = False,
      drawables = [10 \<mapsto> (example_agd 10)\<lparr>reference_count := 2\<rparr>],
      trace = []\<rparr>"

subsection \<open>The effect of each part\<close>

lemmas prim_defs = emit_def call_set_current_context_def call_clear_drawable_def
  call_destroy_pixel_format_def call_destroy_context_def call_xp_attach_gl_context_def
  call_release_drawable_def call_destroy_drawable_def call_find_drawable_def
  call_create_drawable_def call_garbage_collect_drawables_def call_XAppleDRIDestroySurface_def
  call_free_def lock_context_list_def unlock_context_list_def store_context_list_def
  store_next_def store_previous_def store_drawable_def store_thread_id_def

lemmas example_defs = example_agd_def example_env_def attach_failing_env_def example_ctx_def
  example_state_def three_contexts_def None_XID_def counting_env_def two_sharing_def

lemmas make_current_defs = apple_glx_make_current_context_def make_current_none_def
  release_old_drawable_def find_or_create_drawable_def attach_and_set_current_def

lemma make_current_none_effect:
  "make_current_none E ac s = (r, s') \<Longrightarrow>
   heap s' = heap s \<and> context_list s' = context_list s \<and> context_lock s' = context_lock s \<and>
   drawables s' = drawables s \<and>
   ((\<exists>r1. r = Inr True \<and> r1 \<noteq> 0 \<and>
       trace s' = trace s @ [Call_clear_drawable (context_obj ac) r1]) \<or>
    (\<exists>r2. r = Inr (r2 \<noteq> 0) \<and>
       trace s' = trace s @ [Call_clear_drawable (context_obj ac) 0,
                             Call_set_current_context (context_obj ac) r2]))"
  unfolding make_current_none_def prim_defs
  by (auto split: prod.splits if_splits)

lemma release_old_drawable_effect:
  "release_old_drawable E a ac s = (r, s') \<Longrightarrow> heap s a = Some ac \<Longrightarrow>
   r = Inr () \<and> context_list s' = context_list s \<and> context_lock s' = context_lock s \<and>
   heap s' = (heap s)(a \<mapsto> ac\<lparr>drawable := None\<rparr>) \<and>
   trace s' = trace s @ (case drawable ac of None \<Rightarrow> []
                         | Some old \<Rightarrow> [Call_release_drawable old, Store_drawable a None])"
  unfolding release_old_drawable_def prim_defs
  by (auto split: option.splits)

lemma find_or_create_drawable_effect:
  "find_or_create_drawable E dpy a x s = ((err, agd), s') \<Longrightarrow>
   heap s' = heap s \<and> context_list s' = context_list s \<and> context_lock s' = context_lock s \<and>
   ((\<not> err \<and> agd \<noteq> None \<and> trace s' = trace s @ [Call_find_drawable dpy x agd]) \<or>
    trace s' = trace s @ [Call_find_drawable dpy x None, Call_create_drawable dpy a x err agd])"
  unfolding find_or_create_drawable_def prim_defs
  by (auto split: option.splits prod.splits)

lemma attach_and_set_current_effect:
  "attach_and_set_current E a ac agd s = (r, s') \<Longrightarrow> heap s a = Some ac0 \<Longrightarrow>
   context_list s' = context_list s \<and> context_lock s' = context_lock s \<and>
   drawables s' = drawables s \<and>
   (case agd of
      None \<Rightarrow> r = Inl Fault \<and> heap s' = (heap s)(a \<mapsto> ac0\<lparr>drawable := None\<rparr>) \<and>
        trace s' = trace s @ [Store_drawable a None]
    | Some p \<Rightarrow>
       (case drawables s p of
          None \<Rightarrow> r = Inl Fault \<and> heap s' = (heap s)(a \<mapsto> ac0\<lparr>drawable := agd\<rparr>) \<and>
             trace s' = trace s @ [Store_drawable a agd]
        | Some rec \<Rightarrow>
           (\<exists>xerr. xerr \<noteq> 0 \<and> r = Inr True \<and>
             heap s' = (heap s)(a \<mapsto> ac0\<lparr>drawable := agd\<rparr>) \<and>
             trace s' = trace s @ [Store_drawable a agd,
                Call_xp_attach_gl_context (context_obj ac) (surface_id rec) xerr]) \<or>
           (\<exists>cglerr. cglerr \<noteq> 0 \<and> r = Inr True \<and>
             heap s' = (heap s)(a \<mapsto> ac0\<lparr>drawable := agd\<rparr>) \<and>
             trace s' = trace s @ [Store_drawable a agd,
                Call_xp_attach_gl_context (context_obj ac) (surface_id rec) 0,
                Call_set_current_context (context_obj ac) cglerr]) \<or>
           (r = Inr False \<and>
             heap s' = (heap s)(a \<mapsto> ac0\<lparr>drawable := agd, thread_id := pthread_self E\<rparr>) \<and>
             trace s' = trace s @ [Store_drawable a agd,
                Call_xp_attach_gl_context (context_obj ac) (surface_id rec) 0,
                Call_set_current_context (context_obj ac) 0,
                Store_thread_id a (pthread_self E)])))"
  unfolding attach_and_set_current_def prim_defs
  by (auto split: option.splits prod.splits if_splits)

text \<open>The ways through \<open>apple_glx_make_current_context\<close>.\<close>

lemma make_current_cases:
  assumes "apple_glx_make_current_context E dpy (Some a) x s = (r, s')"
  obtains (abort) "dpy = None" "r = Inl Abort" "s' = s"
  | (fault) "dpy \<noteq> None" "heap s a = None" "r = Inl Fault" "s' = s"
  | (none) ac where "dpy \<noteq> None" "heap s a = Some ac" "x = None_XID"
      "make_current_none E ac s = (r, s')"
  | (create_failed) ac s1 agd where "dpy \<noteq> None" "heap s a = Some ac" "x \<noteq> None_XID"
      "release_old_drawable E a ac s = (Inr (), s1)"
      "find_or_create_drawable E dpy a x s1 = ((True, agd), s')" "r = Inr True"
  | (attach) ac s1 agd s3 where "dpy \<noteq> None" "heap s a = Some ac" "x \<noteq> None_XID"
      "release_old_drawable E a ac s = (Inr (), s1)"
      "find_or_create_drawable E dpy a x s1 = ((False, agd), s3)"
      "attach_and_set_current E a ac agd s3 = (r, s')"
  using assms unfolding apple_glx_make_current_context_def
  by (auto split: option.splits if_splits prod.splits sum.splits
      dest: release_old_drawable_effect)

text \<open>
  The branch \<open>None == drawable\<close>, whether it succeeds or fails, stores nothing into any
  context and leaves the drawable records, the list and the mutex as they were.
\<close>

lemma make_current_none_stores_nothing:
  assumes "apple_glx_make_current_context E dpy (Some a) None_XID s = (r, s')"
  shows "heap s' = heap s \<and> drawables s' = drawables s \<and>
    context_list s' = context_list s \<and> context_lock s' = context_lock s \<and>
    (\<forall>x. bound_to s' a x = bound_to s a x)"
  using assms
proof (cases rule: make_current_cases)
  case (none ac)
  from make_current_none_effect[OF none(4)] show ?thesis
    by (simp add: bound_to_def cong: option.case_cong)
qed simp_all

text \<open>
  A call with a drawable other than \<open>None\<close> on a context that is attached starts with the
  release of the attached drawable, the store of \<open>NULL\<close> and the call of
  \<open>apple_glx_find_drawable\<close>, in this order.
\<close>

lemma make_current_releases_first:
  assumes run: "apple_glx_make_current_context E dpy (Some a) x s = (r, s')"
    and ac: "heap s a = Some ac" "drawable ac = Some old"
    and nz: "x \<noteq> None_XID" and d: "dpy \<noteq> None"
  shows "\<exists>found rest. trace s' = trace s @
     Call_release_drawable old # Store_drawable a None # Call_find_drawable dpy x found # rest"
  using run
proof (cases rule: make_current_cases)
  case abort
  with d show ?thesis by simp
next
  case fault
  with ac show ?thesis by simp
next
  case (none ac0)
  with nz show ?thesis by simp
next
  case (create_failed ac0 s1 agd)
  with ac have [simp]: "ac0 = ac" by simp
  from release_old_drawable_effect[OF create_failed(4,2)]
    find_or_create_drawable_effect[OF create_failed(5)] ac(2)
  show ?thesis by auto
next
  case (attach ac0 s1 agd s3)
  with ac have [simp]: "ac0 = ac" by simp
  note rel = release_old_drawable_effect[OF attach(4,2)]
  note res = find_or_create_drawable_effect[OF attach(5)]
  from rel res have h3: "heap s3 a = Some (ac\<lparr>drawable := None\<rparr>)" by simp
  from attach_and_set_current_effect[OF attach(6) h3]
  obtain rest where "trace s' = trace s3 @ rest" by (auto split: option.splits)
  with rel res ac(2) show ?thesis by auto
qed

subsection \<open>Lists in memory and the unlinking\<close>

lemma fwd_chain_cong:
  "(\<And>x. x \<in> set as \<Longrightarrow> map_option next_ptr (h' x) = map_option next_ptr (h x)) \<Longrightarrow>
   fwd_chain h' p as = fwd_chain h p as"
proof (induction as arbitrary: p)
  case Nil
  show ?case by simp
next
  case (Cons a as)
  from Cons.prems[of a] have "map_option next_ptr (h' a) = map_option next_ptr (h a)" by simp
  moreover from Cons.prems have "\<And>q. fwd_chain h' q as = fwd_chain h q as"
    by (intro Cons.IH) simp
  ultimately show ?case by (cases "h a"; cases "h' a") auto
qed

lemma back_chain_cong:
  "(\<And>x. x \<in> set as \<Longrightarrow> map_option previous (h' x) = map_option previous (h x)) \<Longrightarrow>
   back_chain h' q as = back_chain h q as"
proof (induction as arbitrary: q)
  case Nil
  show ?case by simp
next
  case (Cons a as)
  from Cons.prems[of a] have "map_option previous (h' a) = map_option previous (h a)" by simp
  moreover from Cons.prems have "\<And>q. back_chain h' q as = back_chain h q as"
    by (intro Cons.IH) simp
  ultimately show ?case by (cases "h a"; cases "h' a") auto
qed

lemma fwd_chain_unique: "fwd_chain h p as \<Longrightarrow> fwd_chain h p bs \<Longrightarrow> as = bs"
proof (induction as arbitrary: p bs)
  case Nil
  then show ?case by (cases bs) auto
next
  case (Cons a as)
  then show ?case by (cases bs) (auto split: option.splits)
qed

lemma fwd_chain_at:
  "fwd_chain h p (xs @ a # ys) \<Longrightarrow>
   \<exists>ac. h a = Some ac \<and> fwd_chain h (next_ptr ac) ys \<and> (xs = [] \<longrightarrow> p = Some a)"
  by (induction xs arbitrary: p) (auto split: option.splits)

lemma fwd_chain_distinct: "fwd_chain h p as \<Longrightarrow> distinct as"
proof (induction as arbitrary: p)
  case Nil
  show ?case by simp
next
  case (Cons a as)
  from Cons.prems obtain c where c: "h a = Some c" "fwd_chain h (next_ptr c) as"
    by (auto split: option.splits)
  have "a \<notin> set as"
  proof
    assume "a \<in> set as"
    then obtain xs ys where as: "as = xs @ a # ys" by (auto dest: split_list)
    with c fwd_chain_at[of h "next_ptr c" xs a ys] have "fwd_chain h (next_ptr c) ys" by auto
    with c(2) have "as = ys" by (rule fwd_chain_unique)
    with as show False by simp
  qed
  with Cons.IH[OF c(2)] show ?case by simp
qed

lemma back_chain_at:
  "back_chain h q (xs @ a # ys) \<Longrightarrow>
   \<exists>ac. h a = Some ac \<and> previous ac = (if xs = [] then q else Some (last xs)) \<and>
     back_chain h (Some a) ys"
  by (induction xs arbitrary: q) (auto split: option.splits)

lemma back_chain_prefix: "back_chain h q (xs @ ys) \<Longrightarrow> back_chain h q xs"
  by (induction xs arbitrary: q) (auto split: option.splits)

lemma fwd_chain_last:
  "fwd_chain h p (xs @ a # ys) \<Longrightarrow> xs \<noteq> [] \<Longrightarrow>
   \<exists>cx. h (last xs) = Some cx \<and> next_ptr cx = Some a"
  by (induction xs arbitrary: p) (auto split: option.splits)

lemma fwd_relink:
  "fwd_chain h p (xs @ a # ys) \<Longrightarrow> xs \<noteq> [] \<Longrightarrow> distinct (xs @ a # ys) \<Longrightarrow>
   h a = Some ac \<Longrightarrow> h' (last xs) = Some cx \<Longrightarrow> next_ptr cx = next_ptr ac \<Longrightarrow>
   (\<And>z. z \<noteq> last xs \<Longrightarrow> map_option next_ptr (h' z) = map_option next_ptr (h z)) \<Longrightarrow>
   fwd_chain h' p (xs @ ys)"
proof (induction xs arbitrary: p)
  case Nil
  then show ?case by simp
next
  case (Cons x xs)
  show ?case
  proof (cases "xs = []")
    case True
    with Cons.prems have "fwd_chain h (next_ptr ac) ys" "p = Some x" "x \<notin> set ys"
      by (auto split: option.splits)
    moreover have "fwd_chain h' (next_ptr ac) ys = fwd_chain h (next_ptr ac) ys"
      using \<open>x \<notin> set ys\<close> True by (intro fwd_chain_cong Cons.prems(7)) auto
    ultimately show ?thesis using True Cons.prems(5,6) by simp
  next
    case False
    then have "last xs \<in> set xs" by simp
    moreover from Cons.prems(3) have "x \<notin> set xs" by simp
    ultimately have ne: "x \<noteq> last xs" by metis
    from Cons.prems False obtain c where c: "h x = Some c"
      "fwd_chain h (next_ptr c) (xs @ a # ys)" "p = Some x"
      by (auto split: option.splits)
    from Cons.prems(7)[of x] c False ne
    obtain c' where c': "h' x = Some c'" "next_ptr c' = next_ptr c" by auto
    from Cons.IH[OF c(2) False] Cons.prems False
    have "fwd_chain h' (next_ptr c) (xs @ ys)" by simp
    with c c' False ne show ?thesis by simp
  qed
qed

lemma back_relink:
  "back_chain h q (xs @ a # y # ys) \<Longrightarrow> distinct (xs @ a # y # ys) \<Longrightarrow>
   h a = Some ac \<Longrightarrow> h' y = Some cy \<Longrightarrow> previous cy = previous ac \<Longrightarrow>
   (\<And>z. z \<noteq> y \<Longrightarrow> map_option previous (h' z) = map_option previous (h z)) \<Longrightarrow>
   back_chain h' q (xs @ y # ys)"
proof (induction xs arbitrary: q)
  case Nil
  then have "previous ac = q" "back_chain h (Some y) ys" "y \<notin> set ys"
    by (auto split: option.splits)
  moreover have "back_chain h' (Some y) ys = back_chain h (Some y) ys"
    using \<open>y \<notin> set ys\<close> by (intro back_chain_cong Nil.prems(6)) auto
  ultimately show ?case using Nil.prems(4,5) by simp
next
  case (Cons x xs)
  then obtain c where c: "h x = Some c" "previous c = q"
    "back_chain h (Some x) (xs @ a # y # ys)" "x \<noteq> y"
    by (auto split: option.splits)
  from Cons.prems(6)[of x] c
  obtain c' where c': "h' x = Some c'" "previous c' = previous c" by auto
  from Cons.IH[OF c(3)] Cons.prems
  have "back_chain h' (Some x) (xs @ y # ys)" by simp
  with c c' show ?case by simp
qed

lemma destroy_unlink_result:
  assumes "\<not> context_lock s" "heap s a = Some ac"
    "case previous ac of None \<Rightarrow> True | Some p \<Rightarrow> heap s p \<noteq> None"
    "case next_ptr ac of None \<Rightarrow> True | Some n \<Rightarrow> heap s n \<noteq> None"
  shows "\<exists>s'. destroy_unlink a s = (Inr ac, s') \<and>
    context_list s' = (case previous ac of None \<Rightarrow> next_ptr ac | Some _ \<Rightarrow> context_list s) \<and>
    (\<forall>z. map_option next_ptr (heap s' z) =
        (if Some z = previous ac then Some (next_ptr ac) else map_option next_ptr (heap s z))) \<and>
    (\<forall>z. map_option previous (heap s' z) =
        (if Some z = next_ptr ac then Some (previous ac) else map_option previous (heap s z)))"
  using assms unfolding destroy_unlink_def prim_defs
  by (auto split: option.splits)

lemma registry_cong:
  "(\<And>x. x \<in> set as \<Longrightarrow> h' x = h x) \<Longrightarrow> registry h' p as = registry h p as"
  unfolding registry_def
  using fwd_chain_cong[of as h' h p] back_chain_cong[of as h' h None] by simp

lemma destroy_unlink_registry:
  assumes reg: "registry (heap s) (context_list s) as" and mem: "a \<in> set as"
    and free: "\<not> context_lock s"
  shows "\<exists>ac s'. destroy_unlink a s = (Inr ac, s') \<and> heap s a = Some ac \<and>
    registry (heap s') (context_list s') (remove1 a as)"
proof -
  from mem obtain xs ys where as: "as = xs @ a # ys" and nx: "a \<notin> set xs"
    by (auto dest: split_list_first)
  from reg have fw: "fwd_chain (heap s) (context_list s) (xs @ a # ys)"
    and bw: "back_chain (heap s) None (xs @ a # ys)"
    by (simp_all add: registry_def as)
  from fw have dist: "distinct (xs @ a # ys)" by (rule fwd_chain_distinct)
  from nx have rm: "remove1 a as = xs @ ys" by (simp add: as remove1_append)
  from fwd_chain_at[OF fw] back_chain_at[OF bw]
  obtain ac where ac: "heap s a = Some ac" "fwd_chain (heap s) (next_ptr ac) ys"
    "xs = [] \<longrightarrow> context_list s = Some a"
    "previous ac = (if xs = [] then None else Some (last xs))"
    by auto
  have pv: "case previous ac of None \<Rightarrow> True | Some p \<Rightarrow> heap s p \<noteq> None"
  proof (cases "xs = []")
    case True
    with ac show ?thesis by simp
  next
    case False
    with fwd_chain_last[OF fw] ac show ?thesis by auto
  qed
  have nv: "case next_ptr ac of None \<Rightarrow> True | Some n \<Rightarrow> heap s n \<noteq> None"
    using ac(2) by (cases ys) (auto split: option.splits)
  from destroy_unlink_result[OF free ac(1) pv nv]
  obtain s' where run: "destroy_unlink a s = (Inr ac, s')"
    and hd: "context_list s' =
      (case previous ac of None \<Rightarrow> next_ptr ac | Some _ \<Rightarrow> context_list s)"
    and nxt: "\<And>z. map_option next_ptr (heap s' z) =
      (if Some z = previous ac then Some (next_ptr ac) else map_option next_ptr (heap s z))"
    and prv: "\<And>z. map_option previous (heap s' z) =
      (if Some z = next_ptr ac then Some (previous ac) else map_option previous (heap s z))"
    by blast
  have f: "fwd_chain (heap s') (context_list s') (xs @ ys)"
  proof (cases "xs = []")
    case True
    with ac have "previous ac = None" by simp
    with nxt have "fwd_chain (heap s') (next_ptr ac) ys = fwd_chain (heap s) (next_ptr ac) ys"
      by (intro fwd_chain_cong) simp
    with ac(2) hd \<open>previous ac = None\<close> True show ?thesis by simp
  next
    case False
    with ac have p: "previous ac = Some (last xs)" by simp
    with nxt[of "last xs"] obtain cx where cx: "heap s' (last xs) = Some cx"
      "next_ptr cx = next_ptr ac" by auto
    have "fwd_chain (heap s') (context_list s) (xs @ ys)"
      using fw False dist ac(1) cx
    proof (rule fwd_relink)
      fix z assume "z \<noteq> last xs"
      with nxt[of z] p show "map_option next_ptr (heap s' z) = map_option next_ptr (heap s z)"
        by auto
    qed
    with hd p show ?thesis by simp
  qed
  have b: "back_chain (heap s') None (xs @ ys)"
  proof (cases ys)
    case Nil
    with ac(2) have "next_ptr ac = None" by simp
    with prv have "back_chain (heap s') None xs = back_chain (heap s) None xs"
      by (intro back_chain_cong) simp
    with back_chain_prefix[OF bw] Nil show ?thesis by simp
  next
    case (Cons y ys')
    with ac(2) have n: "next_ptr ac = Some y" by simp
    with prv[of y] obtain cy where cy: "heap s' y = Some cy" "previous cy = previous ac"
      by auto
    have "back_chain (heap s') None (xs @ y # ys')"
      using bw[unfolded Cons] dist[unfolded Cons] ac(1) cy
    proof (rule back_relink)
      fix z assume "z \<noteq> y"
      with prv[of z] n show "map_option previous (heap s' z) = map_option previous (heap s z)"
        by auto
    qed
    with Cons show ?thesis by simp
  qed
  from f b run ac(1) rm show ?thesis by (auto simp: registry_def)
qed

subsection \<open>The trace of apple\_glx\_destroy\_context\<close>

lemma held_after_append: "held_after b (xs @ ys) = held_after (held_after b xs) ys"
  by (induction b xs rule: held_after.induct) auto

lemma lock_discipline_append:
  "lock_discipline b (xs @ ys) = (lock_discipline b xs \<and> lock_discipline (held_after b xs) ys)"
  by (induction b xs rule: lock_discipline.induct) auto

lemma lock_discipline_unlocked:
  "(\<And>e. e \<in> set evs \<Longrightarrow> e \<noteq> Lock \<and> e \<noteq> Unlock \<and> \<not> is_registry_store e) \<Longrightarrow>
   lock_discipline False evs \<and> \<not> held_after False evs"
proof (induction evs)
  case Nil
  show ?case by simp
next
  case (Cons e evs)
  from Cons.prems[of e] have "e \<noteq> Lock \<and> e \<noteq> Unlock \<and> \<not> is_registry_store e" by simp
  moreover from Cons have "lock_discipline False evs \<and> \<not> held_after False evs" by simp
  ultimately show ?case by (cases e) simp_all
qed

lemma destroy_unlink_effect:
  assumes "destroy_unlink a s = (r, s')"
  shows "drawables s' = drawables s \<and>
    (\<exists>evs. trace s' = trace s @ evs \<and> lock_discipline (context_lock s) evs \<and>
       context_lock s' = held_after (context_lock s) evs \<and>
       (\<forall>e\<in>set evs. e = Lock \<or> e = Unlock \<or> is_registry_store e) \<and>
       (case r of
          Inl _ \<Rightarrow> True
        | Inr ac' \<Rightarrow> \<not> context_lock s \<and> \<not> context_lock s' \<and> heap s' a = Some ac' \<and>
            (\<exists>sts. evs = Lock # sts @ [Unlock] \<and> list_all is_registry_store sts)))"
  using assms unfolding destroy_unlink_def prim_defs
  by (auto split: option.splits sum.splits prod.splits if_splits)

lemma destroy_unlink_same:
  assumes "destroy_unlink a s = (Inr ac', s')" "heap s a = Some ac"
  shows "ac' = ac"
  using assms unfolding destroy_unlink_def prim_defs
  by (auto split: option.splits sum.splits prod.splits if_splits)

lemma destroy_teardown_effect:
  assumes "destroy_teardown E a ac dpy s = (r, s')"
  shows "context_lock s' = context_lock s \<and> context_list s' = context_list s \<and>
    heap s' = (case r of Inl _ \<Rightarrow> heap s | Inr _ \<Rightarrow> (heap s)(a := None)) \<and>
    (\<exists>evs. trace s' = trace s @ evs \<and>
       (\<forall>e\<in>set evs. e \<noteq> Lock \<and> e \<noteq> Unlock \<and> \<not> is_registry_store e) \<and>
       ((filter (\<lambda>e. is_destroy_drawable e \<or> is_destroy_surface e) evs = [] \<and>
         (r = Inr () \<longrightarrow> drawable ac = None)) \<or>
        (\<exists>d agd. drawable ac = Some d \<and> drawables s d = Some agd \<and>
           (filter (\<lambda>e. is_destroy_drawable e \<or> is_destroy_surface e) evs =
              [Call_destroy_drawable d False] \<or>
            filter (\<lambda>e. is_destroy_drawable e \<or> is_destroy_surface e) evs =
              [Call_destroy_drawable d True,
               Call_XAppleDRIDestroySurface dpy (screen ac) (agd_drawable agd)]))))"
  using assms unfolding destroy_teardown_def prim_defs
  by (auto split: option.splits sum.splits prod.splits if_splits)

lemma registry_store_not_teardown:
  "e = Lock \<or> e = Unlock \<or> is_registry_store e \<Longrightarrow>
   \<not> is_destroy_drawable e \<and> \<not> is_destroy_surface e \<and> \<not> is_teardown e"
  by (cases e) simp_all

lemma unlink_events_filter:
  "\<forall>e\<in>set evs. e = Lock \<or> e = Unlock \<or> is_registry_store e \<Longrightarrow>
   filter (\<lambda>e. is_destroy_drawable e \<or> is_destroy_surface e) evs = []"
  unfolding filter_empty_conv using registry_store_not_teardown by blast

lemma destroy_cases:
  assumes "apple_glx_destroy_context E (Some a) dpy s = (r, s')"
  obtains (set_current_failed) "cgl_set_current_context E None \<noteq> 0" "r = Inl Abort"
      "s' = emit (Call_set_current_context None (cgl_set_current_context E None)) s"
  | (unlink_failed) e where "cgl_set_current_context E None = 0"
      "destroy_unlink a (emit (Call_set_current_context None 0) s) = (Inl e, s')" "r = Inl e"
  | (teardown_failed) ac s4 e where "cgl_set_current_context E None = 0"
      "destroy_unlink a (emit (Call_set_current_context None 0) s) = (Inr ac, s4)"
      "destroy_teardown E a ac dpy s4 = (Inl e, s')" "r = Inl e"
  | (completed) ac s4 s10 where "cgl_set_current_context E None = 0"
      "destroy_unlink a (emit (Call_set_current_context None 0) s) = (Inr ac, s4)"
      "destroy_teardown E a ac dpy s4 = (Inr (), s10)"
      "s' = call_garbage_collect_drawables E dpy s10" "r = Inr None"
  using assms unfolding apple_glx_destroy_context_def call_set_current_context_def
  by (auto split: if_splits prod.splits sum.splits)

lemma destroy_discipline:
  assumes run: "apple_glx_destroy_context E (Some a) dpy s = (r, s')"
  shows "\<exists>evs. trace s' = trace s @ evs \<and> lock_discipline (context_lock s) evs"
  using run
proof (cases rule: destroy_cases)
  case set_current_failed
  then show ?thesis by (simp add: emit_def)
next
  case (unlink_failed e)
  from destroy_unlink_effect[OF unlink_failed(2)] show ?thesis
    by (auto simp: emit_def)
next
  case (teardown_failed ac s4 e)
  from destroy_unlink_effect[OF teardown_failed(2)]
  obtain eu where eu: "trace s4 = trace s @ Call_set_current_context None 0 # eu"
    "lock_discipline (context_lock s) eu" "\<not> held_after (context_lock s) eu"
    by (auto simp: emit_def)
  from destroy_teardown_effect[OF teardown_failed(3)]
  obtain et where et: "trace s' = trace s4 @ et"
    "\<And>e. e \<in> set et \<Longrightarrow> e \<noteq> Lock \<and> e \<noteq> Unlock \<and> \<not> is_registry_store e"
    by blast
  from lock_discipline_unlocked[OF et(2)] eu et(1) show ?thesis
    by (simp add: lock_discipline_append)
next
  case (completed ac s4 s10)
  from destroy_unlink_effect[OF completed(2)]
  obtain eu where eu: "trace s4 = trace s @ Call_set_current_context None 0 # eu"
    "lock_discipline (context_lock s) eu" "\<not> held_after (context_lock s) eu"
    by (auto simp: emit_def)
  from destroy_teardown_effect[OF completed(3)]
  obtain et where et: "trace s10 = trace s4 @ et"
    "\<And>e. e \<in> set et \<Longrightarrow> e \<noteq> Lock \<and> e \<noteq> Unlock \<and> \<not> is_registry_store e"
    by blast
  from lock_discipline_unlocked[OF et(2)] eu et(1) completed(4) show ?thesis
    by (simp add: lock_discipline_append held_after_append
        call_garbage_collect_drawables_def emit_def)
qed

lemma destroy_shape:
  assumes run: "apple_glx_destroy_context E (Some a) dpy s = (r, s')"
    and reg: "registry (heap s) (context_list s) as" and mem: "a \<in> set as"
    and free: "\<not> context_lock s" and ok: "cgl_set_current_context E None = 0"
  shows "\<exists>sts rest. trace s' = trace s @ Call_set_current_context None 0 # Lock # sts @ Unlock # rest \<and>
     list_all is_registry_store sts \<and>
     (\<forall>e\<in>set rest. e \<noteq> Lock \<and> e \<noteq> Unlock \<and> \<not> is_registry_store e) \<and>
     registry (heap s') (context_list s') (remove1 a as) \<and> \<not> context_lock s'"
proof -
  let ?s0 = "emit (Call_set_current_context None 0) s"
  from reg mem free destroy_unlink_registry[of ?s0 as a]
  obtain ac s4 where u: "destroy_unlink a ?s0 = (Inr ac, s4)"
    and r4: "registry (heap s4) (context_list s4) (remove1 a as)"
    by (auto simp: emit_def)
  from destroy_unlink_effect[OF u]
  obtain sts where sts: "trace s4 = trace s @ Call_set_current_context None 0 # Lock # sts @ [Unlock]"
    "list_all is_registry_store sts" "\<not> context_lock s4"
    by (auto simp: emit_def)
  from reg have "distinct as" by (auto simp: registry_def dest: fwd_chain_distinct)
  then have na: "a \<notin> set (remove1 a as)" by simp
  have "registry ((heap s4)(a := None)) (context_list s4) (remove1 a as) =
      registry (heap s4) (context_list s4) (remove1 a as)"
    by (rule registry_cong) (use na in auto)
  with r4 have keep: "registry ((heap s4)(a := None)) (context_list s4) (remove1 a as)"
    by simp
  from run show ?thesis
  proof (cases rule: destroy_cases)
    case set_current_failed
    with ok show ?thesis by simp
  next
    case (unlink_failed e)
    with u show ?thesis by simp
  next
    case (teardown_failed ac' s4' e)
    with u have t: "destroy_teardown E a ac dpy s4 = (Inl e, s')" by simp
    from destroy_teardown_effect[OF t]
    obtain et where et: "trace s' = trace s4 @ et"
      "\<forall>e\<in>set et. e \<noteq> Lock \<and> e \<noteq> Unlock \<and> \<not> is_registry_store e"
      "heap s' = heap s4" "context_list s' = context_list s4"
      "context_lock s' = context_lock s4"
      by auto
    show ?thesis
      by (rule exI[of _ sts], rule exI[of _ et]) (use et sts r4 in simp)
  next
    case (completed ac' s4' s10)
    with u have t: "destroy_teardown E a ac dpy s4 = (Inr (), s10)" by simp
    from destroy_teardown_effect[OF t]
    obtain et where et: "trace s10 = trace s4 @ et"
      "\<forall>e\<in>set et. e \<noteq> Lock \<and> e \<noteq> Unlock \<and> \<not> is_registry_store e"
      "heap s10 = (heap s4)(a := None)" "context_list s10 = context_list s4"
      "context_lock s10 = context_lock s4"
      by auto
    show ?thesis
      by (rule exI[of _ sts], rule exI[of _ "et @ [Call_garbage_collect_drawables dpy]"])
        (use et sts keep completed(4) in
          \<open>simp add: call_garbage_collect_drawables_def emit_def\<close>)
  qed
qed

subsection \<open>The attachment along a call, a healthy call, and the scan\<close>

lemma attach_run_append:
  "attach_run a st (xs @ ys) =
     (case attach_run a st xs of None \<Rightarrow> None | Some st' \<Rightarrow> attach_run a st' ys)"
  by (induction xs arbitrary: st) (auto split: option.splits)

lemma make_current_attach_run:
  assumes run: "apple_glx_make_current_context E dpy (Some a) x s = (r, s')"
    and ac: "heap s a = Some ac"
  shows "\<exists>evs ac'. trace s' = trace s @ evs \<and> heap s' a = Some ac' \<and>
     attach_run a (drawable ac, False) evs = Some (drawable ac', False)"
  using run
proof (cases rule: make_current_cases)
  case abort
  with ac show ?thesis by simp
next
  case fault
  with ac show ?thesis by simp
next
  case (none ac0)
  from make_current_none_effect[OF none(4)] ac show ?thesis by auto
next
  case (create_failed ac0 s1 agd)
  with ac have [simp]: "ac0 = ac" by simp
  from release_old_drawable_effect[OF create_failed(4,2)]
    find_or_create_drawable_effect[OF create_failed(5)]
  show ?thesis by (auto split: option.splits)
next
  case (attach ac0 s1 agd s3)
  with ac have [simp]: "ac0 = ac" by simp
  note rel = release_old_drawable_effect[OF attach(4,2)]
  note res = find_or_create_drawable_effect[OF attach(5)]
  from rel res have h3: "heap s3 a = Some (ac\<lparr>drawable := None\<rparr>)" by simp
  from attach_and_set_current_effect[OF attach(6) h3] rel res
  show ?thesis by (auto split: option.splits)
qed

lemma healthy_call:
  assumes b: "bound_to s a x" and nz: "x \<noteq> None_XID" and h: "healthy E dpy a x"
    and d: "dpy \<noteq> None"
  shows "\<exists>s1 ac old found p sid.
     heap s a = Some ac \<and> drawable ac = Some old \<and>
     apple_glx_make_current_context E dpy (Some a) x s = (Inr False, s1) \<and>
     bound_to s1 a x \<and>
     heap s1 a = Some (ac\<lparr>drawable := Some p, thread_id := pthread_self E\<rparr>) \<and>
     (found = None \<or> found = Some p) \<and>
     trace s1 = trace s @
       rebind_events a old dpy x found p (context_obj ac) sid (pthread_self E)"
proof -
  from b obtain ac old where ac: "heap s a = Some ac" "drawable ac = Some old"
    by (auto simp: bound_to_def split: option.splits)
  from h have sc: "\<And>obj. cgl_set_current_context E obj = 0"
    and at: "\<And>obj sid. xp_attach_gl_context E obj sid = 0"
    and rs: "\<And>ds. resolves E dpy a x ds"
    by (simp_all add: healthy_def)
  let ?ds1 = "glx_release_drawable E (drawables s) old"
  let ?s1 = "s\<lparr>drawables := ?ds1, heap := (heap s)(a \<mapsto> ac\<lparr>drawable := None\<rparr>),
     trace := trace s @ [Call_release_drawable old, Store_drawable a None]\<rparr>"
  have rel: "release_old_drawable E a ac s = (Inr (), ?s1)"
    using ac by (simp add: release_old_drawable_def prim_defs)
  obtain found ds2 where f: "glx_find_drawable E ?ds1 dpy x = (found, ds2)"
    by (cases "glx_find_drawable E ?ds1 dpy x")
  have "\<exists>p ds3 agd evs. find_or_create_drawable E dpy a x ?s1 =
      ((False, Some p), ?s1\<lparr>drawables := ds3, trace := trace ?s1 @ evs\<rparr>) \<and>
      ds3 p = Some agd \<and> agd_drawable agd = x \<and> (found = None \<or> found = Some p) \<and>
      evs = Call_find_drawable dpy x found #
        (case found of None \<Rightarrow> [Call_create_drawable dpy a x False (Some p)] | Some _ \<Rightarrow> [])"
  proof (cases found)
    case (Some p)
    with rs[of ?ds1] f show ?thesis
      by (auto simp: resolves_def find_or_create_drawable_def prim_defs split: option.splits)
  next
    case None
    obtain err agd ds3 where c: "glx_create_drawable E ds2 dpy a x = (err, agd, ds3)"
      by (cases "glx_create_drawable E ds2 dpy a x")
    with rs[of ?ds1] f None show ?thesis
      by (auto simp: resolves_def find_or_create_drawable_def prim_defs split: option.splits)
  qed
  then obtain p ds3 agd evs where fc: "find_or_create_drawable E dpy a x ?s1 =
      ((False, Some p), ?s1\<lparr>drawables := ds3, trace := trace ?s1 @ evs\<rparr>)"
    and p: "ds3 p = Some agd" "agd_drawable agd = x" "found = None \<or> found = Some p"
    and evs: "evs = Call_find_drawable dpy x found #
        (case found of None \<Rightarrow> [Call_create_drawable dpy a x False (Some p)] | Some _ \<Rightarrow> [])"
    by blast
  let ?s3 = "?s1\<lparr>drawables := ds3, trace := trace ?s1 @ evs\<rparr>"
  let ?s7 = "?s3\<lparr>heap := (heap s)(a \<mapsto> ac\<lparr>drawable := Some p, thread_id := pthread_self E\<rparr>),
     trace := trace ?s3 @ [Store_drawable a (Some p),
       Call_xp_attach_gl_context (context_obj ac) (surface_id agd) 0,
       Call_set_current_context (context_obj ac) 0, Store_thread_id a (pthread_self E)]\<rparr>"
  have att: "attach_and_set_current E a ac (Some p) ?s3 = (Inr False, ?s7)"
    using p sc at by (simp add: attach_and_set_current_def prim_defs)
  from d obtain dd where dd: "dpy = Some dd" by auto
  have run: "apple_glx_make_current_context E dpy (Some a) x s = (Inr False, ?s7)"
    using ac nz rel fc att dd by (simp add: apple_glx_make_current_context_def)
  have "bound_to ?s7 a x" using p by (simp add: bound_to_def)
  moreover have "trace ?s7 = trace s @
       rebind_events a old dpy x found p (context_obj ac) (surface_id agd) (pthread_self E)"
    using evs by (simp add: rebind_events_def)
  moreover have "heap ?s7 a = Some (ac\<lparr>drawable := Some p, thread_id := pthread_self E\<rparr>)"
    by simp
  ultimately show ?thesis using ac run p(3) by blast
qed

lemma get_surface_loop_scan:
  assumes "fwd_chain (heap t) p as" "context_lock t"
    "\<forall>a\<in>set as. drawable_ok (heap t) (drawables t) a"
  shows "get_surface_loop u p t =
     Some (Inr (case find (owner_is (heap t) (drawables t) u) as of
                  None \<Rightarrow> (True, None)
                | Some a \<Rightarrow> (False, owner_result (heap t) (drawables t) a)),
           t\<lparr>context_lock := False,
              trace := trace t @
                map Load_context (scan_prefix (owner_is (heap t) (drawables t) u) as) @
                [Unlock]\<rparr>)"
  using assms
proof (induction as arbitrary: p t)
  case Nil
  then show ?case
    by (subst get_surface_loop.simps) (simp add: unlock_context_list_def emit_def)
next
  case (Cons a as)
  from Cons.prems(1) obtain ac where ac: "p = Some a" "heap t a = Some ac"
    "fwd_chain (heap t) (next_ptr ac) as"
    by (auto split: option.splits)
  let ?t = "emit (Load_context a) t"
  have t': "heap ?t = heap t" "drawables ?t = drawables t" "context_lock ?t"
    "trace ?t = trace t @ [Load_context a]"
    using Cons.prems(2) by (simp_all add: emit_def)
  from Cons.prems(3) t' have ok: "\<forall>a\<in>set as. drawable_ok (heap ?t) (drawables ?t) a"
    by simp
  from ac(3) t' have fw: "fwd_chain (heap ?t) (next_ptr ac) as" by simp
  note IH = Cons.IH[OF fw t'(3) ok, unfolded t']
  show ?case
  proof (cases "owner_is (heap t) (drawables t) u a")
    case True
    with ac obtain d agd where m: "drawable ac = Some d" "drawables t d = Some agd"
      "uid agd = u"
      by (auto simp: owner_is_def split: option.splits)
    with ac have res: "owner_result (heap t) (drawables t) a =
        Some (surface_id agd, context_obj ac)"
      by (simp add: owner_result_def)
    have "get_surface_loop u (Some a) t =
        Some (Inr (False, Some (surface_id agd, context_obj ac)),
              t\<lparr>context_lock := False, trace := trace t @ [Load_context a, Unlock]\<rparr>)"
      using ac m Cons.prems(2)
      by (subst get_surface_loop.simps) (simp add: unlock_context_list_def emit_def)
    with True res ac(1) show ?thesis by simp
  next
    case False
    from Cons.prems(3) have "drawable_ok (heap t) (drawables t) a" by simp
    with False ac have m: "drawable ac = None \<or>
        (\<exists>d agd. drawable ac = Some d \<and> drawables t d = Some agd \<and> uid agd \<noteq> u)"
      by (auto simp: owner_is_def drawable_ok_def split: option.splits)
    have "get_surface_loop u (Some a) t = get_surface_loop u (next_ptr ac) ?t"
      using ac m by (subst get_surface_loop.simps) auto
    with False IH ac(1) show ?thesis by (simp add: emit_def)
  qed
qed

lemma find_Some_holds: "find P xs = Some x \<Longrightarrow> P x \<and> x \<in> set xs"
  by (induction xs) (auto split: if_splits)

subsection \<open>Destroying the contexts that share a drawable record\<close>

lemma destroy_unlink_frame:
  assumes "destroy_unlink a s = (Inr ac, s')"
  shows "map_option drawable (heap s' b) = map_option drawable (heap s b) \<and>
    map_option screen (heap s' b) = map_option screen (heap s b)"
  using assms unfolding destroy_unlink_def prim_defs
  by (auto split: option.splits sum.splits prod.splits if_splits)

lemma destroy_teardown_counted:
  assumes run: "destroy_teardown E a ac dpy s = (r, s')"
    and cd: "glx_destroy_drawable E = counted_destroy"
    and ac: "drawable ac = Some d" and agd: "drawables s d = Some agd"
  shows "\<exists>evs. trace s' = trace s @ evs \<and>
    (case r of
       Inl _ \<Rightarrow>
         (\<exists>rest. Call_destroy_drawable d (reference_count agd \<le> 1) #
            (if reference_count agd \<le> 1
             then [Call_XAppleDRIDestroySurface dpy (screen ac) (agd_drawable agd)] else []) =
            filter (\<lambda>e. is_destroy_drawable e \<or> is_destroy_surface e) evs @ rest)
     | Inr _ \<Rightarrow>
         filter (\<lambda>e. is_destroy_drawable e \<or> is_destroy_surface e) evs =
           Call_destroy_drawable d (reference_count agd \<le> 1) #
            (if reference_count agd \<le> 1
             then [Call_XAppleDRIDestroySurface dpy (screen ac) (agd_drawable agd)] else []) \<and>
         (1 < reference_count agd \<longrightarrow>
            drawables s' d = Some (agd\<lparr>reference_count := reference_count agd - 1\<rparr>)))"
  using assms unfolding destroy_teardown_def prim_defs counted_destroy_def
  by (auto split: option.splits sum.splits prod.splits if_splits)

lemma destroy_counted_call:
  assumes run: "apple_glx_destroy_context E (Some a) dpy s = (r, s')"
    and rc: "reference_counting E"
    and reg: "registry (heap s) (context_list s) as" and mem: "a \<in> set as"
    and free: "\<not> context_lock s"
    and ac: "heap s a = Some ac" "drawable ac = Some d"
    and agd: "drawables s d = Some agd" "0 < reference_count agd"
  shows "\<exists>evs. trace s' = trace s @ evs \<and>
    (case r of
       Inl _ \<Rightarrow>
         (\<exists>rest. Call_destroy_drawable d (reference_count agd \<le> 1) #
            (if reference_count agd \<le> 1
             then [Call_XAppleDRIDestroySurface dpy (screen ac) (agd_drawable agd)] else []) =
            filter (\<lambda>e. is_destroy_drawable e \<or> is_destroy_surface e) evs @ rest)
     | Inr _ \<Rightarrow>
         filter (\<lambda>e. is_destroy_drawable e \<or> is_destroy_surface e) evs =
           Call_destroy_drawable d (reference_count agd \<le> 1) #
            (if reference_count agd \<le> 1
             then [Call_XAppleDRIDestroySurface dpy (screen ac) (agd_drawable agd)] else []) \<and>
         registry (heap s') (context_list s') (remove1 a as) \<and> \<not> context_lock s' \<and>
         (\<forall>b. b \<noteq> a \<longrightarrow>
            map_option drawable (heap s' b) = map_option drawable (heap s b) \<and>
            map_option screen (heap s' b) = map_option screen (heap s b)) \<and>
         (1 < reference_count agd \<longrightarrow>
            drawables s' d = Some (agd\<lparr>reference_count := reference_count agd - 1\<rparr>)))"
proof -
  let ?F = "filter (\<lambda>e. is_destroy_drawable e \<or> is_destroy_surface e)"
  let ?full = "Call_destroy_drawable d (reference_count agd \<le> 1) #
            (if reference_count agd \<le> 1
             then [Call_XAppleDRIDestroySurface dpy (screen ac) (agd_drawable agd)] else [])"
  from rc have cd: "glx_destroy_drawable E = counted_destroy"
    and gc: "\<And>ds dpy d agd. ds d = Some agd \<Longrightarrow> 0 < reference_count agd \<Longrightarrow>
        glx_garbage_collect_drawables E ds dpy d = Some agd"
    by (auto simp: reference_counting_def)
  from run show ?thesis
  proof (cases rule: destroy_cases)
    case set_current_failed
    then show ?thesis by (simp add: emit_def)
  next
    case (unlink_failed e)
    from destroy_unlink_effect[OF unlink_failed(2)]
    obtain eu where "trace s' = trace s @ Call_set_current_context None 0 # eu"
      "?F eu = []"
      by (auto simp: emit_def dest: unlink_events_filter)
    with unlink_failed(3) show ?thesis by simp
  next
    case (teardown_failed ac' s4 e)
    from destroy_unlink_same[OF teardown_failed(2)] ac have [simp]: "ac' = ac"
      by (simp add: emit_def)
    from destroy_unlink_effect[OF teardown_failed(2)]
    obtain eu where eu: "trace s4 = trace s @ Call_set_current_context None 0 # eu"
      "?F eu = []" "drawables s4 = drawables s"
      by (auto simp: emit_def dest: unlink_events_filter)
    from agd eu have a4: "drawables s4 d = Some agd" by simp
    from destroy_teardown_counted[OF teardown_failed(3)[simplified] cd ac(2) a4]
    obtain et rest where "trace s' = trace s4 @ et" "?full = ?F et @ rest"
      by auto
    with eu teardown_failed(4) show ?thesis by simp
  next
    case (completed ac' s4 s10)
    from destroy_unlink_same[OF completed(2)] ac have [simp]: "ac' = ac"
      by (simp add: emit_def)
    from destroy_unlink_effect[OF completed(2)]
    obtain eu where eu: "trace s4 = trace s @ Call_set_current_context None 0 # eu"
      "?F eu = []" "drawables s4 = drawables s"
      by (auto simp: emit_def dest: unlink_events_filter)
    from agd eu have a4: "drawables s4 d = Some agd" by simp
    from destroy_teardown_counted[OF completed(3)[simplified] cd ac(2) a4]
    obtain et where et: "trace s10 = trace s4 @ et" "?F et = ?full"
      "1 < reference_count agd \<Longrightarrow>
         drawables s10 d = Some (agd\<lparr>reference_count := reference_count agd - 1\<rparr>)"
      by auto
    from destroy_teardown_effect[OF completed(3)]
    have h10: "heap s10 = (heap s4)(a := None)" by simp
    have fr: "map_option drawable (heap s' b) = map_option drawable (heap s b) \<and>
        map_option screen (heap s' b) = map_option screen (heap s b)" if "b \<noteq> a" for b
      using destroy_unlink_frame[OF completed(2), of b] h10 completed(4) that
      by (simp add: call_garbage_collect_drawables_def emit_def)
    have dr: "drawables s' d = Some (agd\<lparr>reference_count := reference_count agd - 1\<rparr>)"
      if "1 < reference_count agd"
      using et(3)[OF that] that completed(4) gc
      by (simp add: call_garbage_collect_drawables_def emit_def)
    from destroy_shape[OF run reg mem free completed(1)]
    have rg: "registry (heap s') (context_list s') (remove1 a as)" "\<not> context_lock s'"
      by auto
    have "trace s' = trace s @ Call_set_current_context None 0 # eu @ et @
        [Call_garbage_collect_drawables dpy]"
      using eu et completed(4) by (simp add: call_garbage_collect_drawables_def emit_def)
    moreover have "?F (Call_set_current_context None 0 # eu @ et @
        [Call_garbage_collect_drawables dpy]) = ?full"
      using eu et by simp
    ultimately show ?thesis using completed(5) rg fr dr by auto
  qed
qed

lemma sharing_teardown_cong:
  "(\<And>E a dpy. (E, a, dpy) \<in> set cs \<Longrightarrow> map_option screen (h' a) = map_option screen (h a)) \<Longrightarrow>
   sharing_teardown h' d x cs = sharing_teardown h d x cs"
proof (induction cs)
  case Nil
  show ?case by simp
next
  case (Cons c cs)
  obtain E a dpy where c: "c = (E, a, dpy)" by (cases c)
  from Cons.prems[of E a dpy] c
  have "map_option screen (h' a) = map_option screen (h a)" by simp
  moreover have "sharing_teardown h' d x cs = sharing_teardown h d x cs"
  proof (rule Cons.IH)
    fix E' a' dpy' assume "(E', a', dpy') \<in> set cs"
    then show "map_option screen (h' a') = map_option screen (h a')"
      using Cons.prems[of E' a' dpy'] by simp
  qed
  ultimately show ?case unfolding c by (cases "h a"; cases "h' a") auto
qed

lemma destroy_calls_sharing:
  assumes "registry (heap s) (context_list s) as" "\<not> context_lock s"
    "distinct (map (\<lambda>c. fst (snd c)) cs)"
    "\<forall>c\<in>set cs. fst (snd c) \<in> set as \<and> attached_to (heap s) (fst (snd c)) d \<and>
        reference_counting (fst c)"
    "drawables s d = Some agd" "reference_count agd = length cs"
  shows "\<exists>evs rest. trace (destroy_calls cs s) = trace s @ evs \<and>
     sharing_teardown (heap s) d (agd_drawable agd) cs =
       filter (\<lambda>e. is_destroy_drawable e \<or> is_destroy_surface e) evs @ rest"
  using assms
proof (induction cs arbitrary: s as agd)
  case Nil
  show ?case by simp
next
  case (Cons c cs)
  let ?F = "filter (\<lambda>e. is_destroy_drawable e \<or> is_destroy_surface e)"
  obtain E a dpy where c: "c = (E, a, dpy)" by (cases c)
  from Cons.prems(4) c obtain ac where ac: "heap s a = Some ac" "drawable ac = Some d"
    and mem: "a \<in> set as" and rc: "reference_counting E"
    by (auto simp: attached_to_def split: option.splits)
  from Cons.prems(6) have pos: "0 < reference_count agd"
    and last: "reference_count agd \<le> 1 \<longleftrightarrow> cs = []" by auto
  obtain r s1 where run: "apple_glx_destroy_context E (Some a) dpy s = (r, s1)"
    by (cases "apple_glx_destroy_context E (Some a) dpy s")
  from destroy_counted_call[OF run rc Cons.prems(1) mem Cons.prems(2) ac Cons.prems(5) pos]
  obtain ev1 where ev1: "trace s1 = trace s @ ev1"
    and eff: "case r of
       Inl _ \<Rightarrow>
         (\<exists>rest. Call_destroy_drawable d (reference_count agd \<le> 1) #
            (if reference_count agd \<le> 1
             then [Call_XAppleDRIDestroySurface dpy (screen ac) (agd_drawable agd)] else []) =
            ?F ev1 @ rest)
     | Inr _ \<Rightarrow>
         ?F ev1 =
           Call_destroy_drawable d (reference_count agd \<le> 1) #
            (if reference_count agd \<le> 1
             then [Call_XAppleDRIDestroySurface dpy (screen ac) (agd_drawable agd)] else []) \<and>
         registry (heap s1) (context_list s1) (remove1 a as) \<and> \<not> context_lock s1 \<and>
         (\<forall>b. b \<noteq> a \<longrightarrow>
            map_option drawable (heap s1 b) = map_option drawable (heap s b) \<and>
            map_option screen (heap s1 b) = map_option screen (heap s b)) \<and>
         (1 < reference_count agd \<longrightarrow>
            drawables s1 d = Some (agd\<lparr>reference_count := reference_count agd - 1\<rparr>))"
    by blast
  have st: "sharing_teardown (heap s) d (agd_drawable agd) (c # cs) =
      (if cs = [] then
         [Call_destroy_drawable d True,
          Call_XAppleDRIDestroySurface dpy (screen ac) (agd_drawable agd)]
       else Call_destroy_drawable d False #
         sharing_teardown (heap s) d (agd_drawable agd) cs)"
    using ac c by simp
  show ?case
  proof (cases r)
    case (Inl e)
    with eff last obtain rest where "(if cs = [] then
         [Call_destroy_drawable d True,
          Call_XAppleDRIDestroySurface dpy (screen ac) (agd_drawable agd)]
       else [Call_destroy_drawable d False]) = ?F ev1 @ rest"
      by (auto split: if_splits)
    with st have "sharing_teardown (heap s) d (agd_drawable agd) (c # cs) =
        ?F ev1 @ rest @ (if cs = [] then [] else
          sharing_teardown (heap s) d (agd_drawable agd) cs)"
      by (auto split: if_splits simp: append_eq_Cons_conv Cons_eq_append_conv)
    moreover from run Inl c ev1 have "trace (destroy_calls (c # cs) s) = trace s @ ev1"
      by simp
    ultimately show ?thesis by blast
  next
    case (Inr h)
    with eff have f1: "?F ev1 =
           Call_destroy_drawable d (reference_count agd \<le> 1) #
            (if reference_count agd \<le> 1
             then [Call_XAppleDRIDestroySurface dpy (screen ac) (agd_drawable agd)] else [])"
      and reg1: "registry (heap s1) (context_list s1) (remove1 a as)"
      and free1: "\<not> context_lock s1"
      and fr: "\<And>b. b \<noteq> a \<Longrightarrow>
            map_option drawable (heap s1 b) = map_option drawable (heap s b) \<and>
            map_option screen (heap s1 b) = map_option screen (heap s b)"
      and dr: "1 < reference_count agd \<Longrightarrow>
            drawables s1 d = Some (agd\<lparr>reference_count := reference_count agd - 1\<rparr>)"
      by auto
    show ?thesis
    proof (cases "cs = []")
      case True
      with run Inr c ev1 f1 last st show ?thesis
        by (intro exI[of _ ev1] exI[of _ "[]"]) simp
    next
      case False
      let ?agd = "agd\<lparr>reference_count := reference_count agd - 1\<rparr>"
      from False Cons.prems(6) have big: "1 < reference_count agd"
        by (cases cs) auto
      from Cons.prems(3) c have d1: "distinct (map (\<lambda>c. fst (snd c)) cs)"
        and na: "\<And>c'. c' \<in> set cs \<Longrightarrow> fst (snd c') \<noteq> a"
        by auto
      have p4: "\<forall>c\<in>set cs. fst (snd c) \<in> set (remove1 a as) \<and>
          attached_to (heap s1) (fst (snd c)) d \<and> reference_counting (fst c)"
      proof
        fix c' assume c': "c' \<in> set cs"
        with Cons.prems(4) have "fst (snd c') \<in> set as"
          "attached_to (heap s) (fst (snd c')) d" "reference_counting (fst c')"
          by auto
        moreover from fr[OF na[OF c']]
        have "attached_to (heap s1) (fst (snd c')) d = attached_to (heap s) (fst (snd c')) d"
          by (cases "heap s1 (fst (snd c'))"; cases "heap s (fst (snd c'))")
            (auto simp: attached_to_def)
        ultimately show "fst (snd c') \<in> set (remove1 a as) \<and>
          attached_to (heap s1) (fst (snd c')) d \<and> reference_counting (fst c')"
          using na[OF c'] by simp
      qed
      from Cons.prems(6) have p6: "reference_count ?agd = length cs" by simp
      from Cons.IH[OF reg1 free1 d1 p4 dr[OF big] p6]
      obtain ev2 rest where two: "trace (destroy_calls cs s1) = trace s1 @ ev2"
        "sharing_teardown (heap s1) d (agd_drawable ?agd) cs = ?F ev2 @ rest"
        by blast
      have "sharing_teardown (heap s1) d (agd_drawable agd) cs =
          sharing_teardown (heap s) d (agd_drawable agd) cs"
      proof (rule sharing_teardown_cong)
        fix E' a' dpy' assume "(E', a', dpy') \<in> set cs"
        from fr[OF na[OF this]]
        show "map_option screen (heap s1 a') = map_option screen (heap s a')" by simp
      qed
      with two(2) have "sharing_teardown (heap s) d (agd_drawable agd) cs = ?F ev2 @ rest"
        by simp
      with st False f1 big have "sharing_teardown (heap s) d (agd_drawable agd) (c # cs) =
          ?F (ev1 @ ev2) @ rest"
        by simp
      moreover from run Inr c ev1 two(1)
      have "trace (destroy_calls (c # cs) s) = trace s @ ev1 @ ev2" by simp
      ultimately show ?thesis by blast
    qed
  qed
qed


text \<open>The destroy-drawable and destroy-surface events of one call.\<close>

lemma destroy_one_call_teardown:
  assumes run: "apple_glx_destroy_context E (Some a) dpy s = (r, s')"
    and ac: "heap s a = Some ac" and tr: "trace s' = trace s @ evs"
  shows "(filter (\<lambda>e. is_destroy_drawable e \<or> is_destroy_surface e) evs = [] \<and>
           (r = Inr None \<longrightarrow> drawable ac = None)) \<or>
         (\<exists>d agd. drawable ac = Some d \<and> drawables s d = Some agd \<and>
           (filter (\<lambda>e. is_destroy_drawable e \<or> is_destroy_surface e) evs =
              [Call_destroy_drawable d False] \<or>
            filter (\<lambda>e. is_destroy_drawable e \<or> is_destroy_surface e) evs =
              [Call_destroy_drawable d True,
               Call_XAppleDRIDestroySurface dpy (screen ac) (agd_drawable agd)]))"
  using run
proof (cases rule: destroy_cases)
  case set_current_failed
  with tr show ?thesis by (auto simp: emit_def)
next
  case (unlink_failed e)
  from destroy_unlink_effect[OF unlink_failed(2)] tr unlink_failed(3)
  have "filter (\<lambda>e. is_destroy_drawable e \<or> is_destroy_surface e) evs = []"
    by (auto simp: emit_def dest: unlink_events_filter)
  with unlink_failed(3) show ?thesis by simp
next
  case (teardown_failed ac' s4 e)
  from destroy_unlink_same[OF teardown_failed(2)] ac have [simp]: "ac' = ac"
    by (simp add: emit_def)
  from destroy_unlink_effect[OF teardown_failed(2)]
  obtain eu where eu: "trace s4 = trace s @ Call_set_current_context None 0 # eu"
    "filter (\<lambda>e. is_destroy_drawable e \<or> is_destroy_surface e) eu = []"
    "drawables s4 = drawables s"
    by (auto simp: emit_def dest: unlink_events_filter)
  from destroy_teardown_effect[OF teardown_failed(3)] eu tr teardown_failed(4)
  show ?thesis by auto
next
  case (completed ac' s4 s10)
  from destroy_unlink_same[OF completed(2)] ac have [simp]: "ac' = ac"
    by (simp add: emit_def)
  from destroy_unlink_effect[OF completed(2)]
  obtain eu where eu: "trace s4 = trace s @ Call_set_current_context None 0 # eu"
    "filter (\<lambda>e. is_destroy_drawable e \<or> is_destroy_surface e) eu = []"
    "drawables s4 = drawables s"
    by (auto simp: emit_def dest: unlink_events_filter)
  from destroy_teardown_effect[OF completed(3)] eu tr completed(4,5)
  show ?thesis by (auto simp: call_garbage_collect_drawables_def emit_def)
qed

subsection \<open>Theorems\<close>

text \<open>
  C9. \<open>apple_glx_destroy_context\<close> on a handle that holds \<open>NULL\<close> returns at once: the
  handle, the registry, the memory and the trace are as before, so no function outside the
  file has been called.
\<close>

theorem destroy_null_handle_noop:
  "apple_glx_destroy_context E None dpy s = (Inr None, s)"
  by (simp add: apple_glx_destroy_context_def)

text \<open>
  C2, as the code has it. When \<open>xp_attach_gl_context\<close> returns a non-zero error code
  during a call of \<open>apple_glx_make_current_context\<close>, the call returns \<open>true\<close> and the
  events of the whole call are: the release of the old drawable and the store of \<open>NULL\<close>
  (when one was attached), \<open>apple_glx_find_drawable\<close> for the target (followed, when it
  found nothing, by a successful \<open>apple_glx_create_drawable\<close>), the store of the record
  \<open>p\<close> that was found or created into \<open>ac->drawable\<close>, and the attach call, with the
  \<open>surface_id\<close> of that record. Nothing follows the attach call: \<open>set_current_context\<close>
  is not called and \<open>thread_id\<close> is not stored. The context is left with \<open>drawable\<close>
  pointing to \<open>p\<close>; it is not \<open>NULL\<close>.
\<close>

theorem make_current_attach_error:
  assumes run: "apple_glx_make_current_context E dpy (Some a) x s = (r, s')"
    and tr: "trace s' = trace s @ evs"
    and ev: "Call_xp_attach_gl_context obj sid xerr \<in> set evs"
    and nz: "xerr \<noteq> 0"
  shows "r = Inr True \<and> x \<noteq> None_XID \<and> last evs = Call_xp_attach_gl_context obj sid xerr \<and>
    (\<exists>ac ac' p agd. heap s a = Some ac \<and> heap s' a = Some ac' \<and> obj = context_obj ac \<and>
       drawable ac' = Some p \<and> drawables s' p = Some agd \<and> surface_id agd = sid \<and>
       thread_id ac' = thread_id ac \<and>
       (evs =
          (case drawable ac of
             None \<Rightarrow> []
           | Some old \<Rightarrow> [Call_release_drawable old, Store_drawable a None]) @
          [Call_find_drawable dpy x (Some p), Store_drawable a (Some p),
           Call_xp_attach_gl_context obj sid xerr] \<or>
        evs =
          (case drawable ac of
             None \<Rightarrow> []
           | Some old \<Rightarrow> [Call_release_drawable old, Store_drawable a None]) @
          [Call_find_drawable dpy x None, Call_create_drawable dpy a x False (Some p),
           Store_drawable a (Some p), Call_xp_attach_gl_context obj sid xerr]))"
  using run
proof (cases rule: make_current_cases)
  case abort
  with tr ev show ?thesis by simp
next
  case fault
  with tr ev show ?thesis by simp
next
  case (none ac)
  with tr ev show ?thesis by (auto dest!: make_current_none_effect)
next
  case (create_failed ac s1 agd)
  from release_old_drawable_effect[OF create_failed(4,2)]
    find_or_create_drawable_effect[OF create_failed(5)] tr ev
  show ?thesis by (auto split: option.splits)
next
  case (attach ac s1 agd s3)
  note rel = release_old_drawable_effect[OF attach(4,2)]
  note res = find_or_create_drawable_effect[OF attach(5)]
  from rel res have h3: "heap s3 a = Some (ac\<lparr>drawable := None\<rparr>)" by simp
  from attach_and_set_current_effect[OF attach(6) h3] attach(2,3) rel res tr ev nz
  show ?thesis by (auto split: option.splits)
qed

theorem make_current_attach_error_witness:
  "Call_xp_attach_gl_context (Some 11) 210 1 \<in>
     set (trace (snd (apple_glx_make_current_context attach_failing_env (Some 0) (Some 1) 10
                       (example_state None)))) \<and>
   fst (apple_glx_make_current_context attach_failing_env (Some 0) (Some 1) 10
         (example_state None)) = Inr True \<and>
   last (trace (snd (apple_glx_make_current_context attach_failing_env (Some 0) (Some 1) 10
                       (example_state None)))) = Call_xp_attach_gl_context (Some 11) 210 1 \<and>
   Call_set_current_context (Some 11) 0 \<notin>
     set (trace (snd (apple_glx_make_current_context attach_failing_env (Some 0) (Some 1) 10
                       (example_state None))))"
proof -
  let ?run = "apple_glx_make_current_context attach_failing_env (Some 0) (Some 1) 10
                (example_state None)"
  have tr: "trace (snd ?run) = trace (example_state None) @ trace (snd ?run)"
    by (simp add: example_defs)
  have ev: "Call_xp_attach_gl_context (Some 11) 210 1 \<in> set (trace (snd ?run))"
    by (simp add: make_current_defs prim_defs example_defs)
  have nz: "(1::int) \<noteq> 0" by simp
  from make_current_attach_error[OF surjective_pairing tr ev nz] ev
  show ?thesis by (auto split: option.splits)
qed

text \<open>
  C2 as stated fails: with a context that has no drawable and an attach call that returns
  the error code 1, the call reports failure and the context is left with \<open>drawable\<close>
  pointing to the record of drawable 10, not with \<open>NULL\<close>.
\<close>

theorem make_current_attach_error_leaves_drawable:
  "fst (apple_glx_make_current_context attach_failing_env (Some 0) (Some 1) 10
         (example_state None)) = Inr True \<and>
   map_option drawable
     (heap (snd (apple_glx_make_current_context attach_failing_env (Some 0) (Some 1) 10
                  (example_state None))) 1) = Some (Some 10)"
  by (simp add: make_current_defs prim_defs example_defs)

text \<open>
  C3 does not hold of the code. The context at address 1 is attached to
  the record of drawable 10. A call of \<open>apple_glx_make_current_context\<close> with the drawable
  \<open>None\<close>, in an environment where every outside call succeeds, returns \<open>false\<close>; all
  it did is call \<open>clear_drawable\<close> and \<open>set_current_context\<close>. It has not called
  \<open>apple_glx_release_drawable\<close> and has not stored \<open>NULL\<close>: \<open>drawable\<close> still points
  to the record of drawable 10, and \<open>apple_glx_get_surface_from_uid\<close> with the uid of that
  record still answers with this context. The two other places that take a context off its
  drawable release the reference: the block "Release the reference to the old drawable" of
  this function, which also stores \<open>NULL\<close>, and \<open>apple_glx_destroy_context\<close>.
\<close>

theorem make_current_none_stays_bound:
  "bound_to (example_state (Some 10)) 1 10 \<and>
   fst (apple_glx_make_current_context example_env (Some 0) (Some 1) None_XID
         (example_state (Some 10))) = Inr False \<and>
   trace (snd (apple_glx_make_current_context example_env (Some 0) (Some 1) None_XID
         (example_state (Some 10)))) =
     [Call_clear_drawable (Some 11) 0, Call_set_current_context (Some 11) 0] \<and>
   map_option drawable
     (heap (snd (apple_glx_make_current_context example_env (Some 0) (Some 1) None_XID
                  (example_state (Some 10)))) 1) = Some (Some 10) \<and>
   map_option fst
     (apple_glx_get_surface_from_uid 110
       (snd (apple_glx_make_current_context example_env (Some 0) (Some 1) None_XID
              (example_state (Some 10))))) = Some (Inr (False, Some (210, Some 11)))"
  by (simp add: make_current_defs prim_defs example_defs bound_to_def
      apple_glx_get_surface_from_uid_def get_surface_loop.simps)

text \<open>
  C4, as the code has it. After a call of \<open>apple_glx_make_current_context\<close> that returned
  \<open>false\<close>, \<open>thread_id\<close> of the context is \<open>pthread_self()\<close> when the drawable was not
  \<open>None\<close>, and is what it was before the call when the drawable was \<open>None\<close>.
\<close>

theorem make_current_thread_id:
  assumes "apple_glx_make_current_context E dpy (Some a) x s = (Inr False, s')"
  shows "\<exists>ac ac'. heap s a = Some ac \<and> heap s' a = Some ac' \<and>
     thread_id ac' = (if x = None_XID then thread_id ac else pthread_self E)"
  using assms
proof (cases rule: make_current_cases)
  case (none ac)
  then show ?thesis by (auto dest: make_current_none_effect)
next
  case (attach ac s1 agd s3)
  from release_old_drawable_effect[OF attach(4,2)] find_or_create_drawable_effect[OF attach(5)]
  have h3: "heap s3 a = Some (ac\<lparr>drawable := None\<rparr>)" by simp
  from attach_and_set_current_effect[OF attach(6) h3] attach(2,3)
  show ?thesis by (auto split: option.splits)
qed simp_all

theorem make_current_thread_id_witness:
  "apple_glx_make_current_context example_env (Some 0) (Some 1) 10 (example_state None) =
     (Inr False, snd (apple_glx_make_current_context example_env (Some 0) (Some 1) 10
                       (example_state None))) \<and>
   map_option thread_id
     (heap (snd (apple_glx_make_current_context example_env (Some 0) (Some 1) 10
                  (example_state None))) 1) = Some 7"
proof -
  let ?run = "apple_glx_make_current_context example_env (Some 0) (Some 1) 10
                (example_state None)"
  have "fst ?run = Inr False"
    by (simp add: make_current_defs prim_defs example_defs)
  then have run: "?run = (Inr False, snd ?run)"
    by (simp add: prod_eq_iff)
  from make_current_thread_id[OF run] run
  show ?thesis by (auto simp: example_defs)
qed

text \<open>
  C4 as stated fails for the drawable \<open>None\<close>: the call succeeds on thread 7 and
  \<open>thread_id\<close> is still 3.
\<close>

theorem make_current_none_keeps_thread_id:
  "pthread_self example_env = 7 \<and>
   fst (apple_glx_make_current_context example_env (Some 0) (Some 1) None_XID
         (example_state (Some 10))) = Inr False \<and>
   map_option thread_id
     (heap (snd (apple_glx_make_current_context example_env (Some 0) (Some 1) None_XID
                  (example_state (Some 10)))) 1) = Some 3"
  by (simp add: make_current_defs prim_defs example_defs)


text \<open>
  C1. In every execution of \<open>apple_glx_destroy_context\<close> on a handle that is not \<open>NULL\<close>,
  whatever the outside functions answer and wherever the execution ends, the events it adds
  to the trace keep the lock discipline: the mutex is taken only when free, every store
  into \<open>context_list\<close>, \<open>next\<close> or \<open>previous\<close> happens while the mutex is held, and
  every teardown call (destroying the drawable, the surface, the pixel format, the native
  context) happens while it is not held.
  When the context is on a well-formed list, the mutex is free and clearing the current
  context succeeds, the events are: the call of \<open>set_current_context(NULL)\<close>, \<open>Lock\<close>,
  stores into the list only, \<open>Unlock\<close>, and then events among which there is no lock,
  unlock or store into the list (all the teardown calls are here); and at the end the list
  is the old one without the context, and the mutex is free.
\<close>

theorem destroy_unlinks_under_lock_before_teardown:
  assumes run: "apple_glx_destroy_context E (Some a) dpy s = (r, s')"
  shows "\<exists>evs. trace s' = trace s @ evs \<and> lock_discipline (context_lock s) evs \<and>
     (\<forall>as. registry (heap s) (context_list s) as \<and> a \<in> set as \<and> \<not> context_lock s \<and>
           cgl_set_current_context E None = 0 \<longrightarrow>
        (\<exists>sts rest. evs = Call_set_current_context None 0 # Lock # sts @ Unlock # rest \<and>
            list_all is_registry_store sts \<and>
            (\<forall>e\<in>set rest. e \<noteq> Lock \<and> e \<noteq> Unlock \<and> \<not> is_registry_store e) \<and>
            registry (heap s') (context_list s') (remove1 a as) \<and> \<not> context_lock s'))"
proof -
  from destroy_discipline[OF run] obtain evs where
    evs: "trace s' = trace s @ evs" "lock_discipline (context_lock s) evs" by blast
  have "\<exists>sts rest. evs = Call_set_current_context None 0 # Lock # sts @ Unlock # rest \<and>
            list_all is_registry_store sts \<and>
            (\<forall>e\<in>set rest. e \<noteq> Lock \<and> e \<noteq> Unlock \<and> \<not> is_registry_store e) \<and>
            registry (heap s') (context_list s') (remove1 a as) \<and> \<not> context_lock s'"
    if "registry (heap s) (context_list s) as \<and> a \<in> set as \<and> \<not> context_lock s \<and>
           cgl_set_current_context E None = 0" for as
    using destroy_shape[OF run, of as] evs(1) that by auto
  with evs show ?thesis by blast
qed

theorem destroy_unlinks_under_lock_before_teardown_witness:
  "registry (heap three_contexts) (context_list three_contexts) [3, 2, 1] \<and>
   lock_discipline False
     (trace (snd (apple_glx_destroy_context example_env (Some 2) (Some 0) three_contexts))) \<and>
   registry
     (heap (snd (apple_glx_destroy_context example_env (Some 2) (Some 0) three_contexts)))
     (context_list (snd (apple_glx_destroy_context example_env (Some 2) (Some 0) three_contexts)))
     [3, 1] \<and>
   \<not> context_lock (snd (apple_glx_destroy_context example_env (Some 2) (Some 0) three_contexts))"
proof -
  let ?run = "apple_glx_destroy_context example_env (Some 2) (Some 0) three_contexts"
  have reg: "registry (heap three_contexts) (context_list three_contexts) [3, 2, 1]"
    by (simp add: registry_def example_defs)
  then have pre: "registry (heap three_contexts) (context_list three_contexts) [3, 2, 1] \<and>
      2 \<in> set [3, 2, 1] \<and> \<not> context_lock three_contexts \<and>
      cgl_set_current_context example_env None = 0"
    by (simp add: example_defs)
  have t0: "trace three_contexts = []" "context_lock three_contexts = False"
    by (simp_all add: three_contexts_def)
  from destroy_unlinks_under_lock_before_teardown[OF surjective_pairing,
      of example_env 2 "Some 0" three_contexts]
  obtain evs where e: "trace (snd ?run) = trace three_contexts @ evs"
      "lock_discipline (context_lock three_contexts) evs"
    and imp: "\<forall>as. registry (heap three_contexts) (context_list three_contexts) as \<and>
        2 \<in> set as \<and> \<not> context_lock three_contexts \<and>
        cgl_set_current_context example_env None = 0 \<longrightarrow>
        (\<exists>sts rest. evs = Call_set_current_context None 0 # Lock # sts @ Unlock # rest \<and>
            list_all is_registry_store sts \<and>
            (\<forall>e\<in>set rest. e \<noteq> Lock \<and> e \<noteq> Unlock \<and> \<not> is_registry_store e) \<and>
            registry (heap (snd ?run)) (context_list (snd ?run)) (remove1 2 as) \<and>
            \<not> context_lock (snd ?run))"
    by (elim exE conjE)
  from imp[rule_format, OF pre]
  have "registry (heap (snd ?run)) (context_list (snd ?run)) (remove1 2 [3, 2, 1]) \<and>
      \<not> context_lock (snd ?run)"
    by (elim exE conjE) simp
  with e reg t0 show ?thesis by simp
qed

text \<open>
  C7. One call: of the events that \<open>apple_glx_destroy_context\<close> adds to the trace, those
  that are calls of \<open>apple_glx_destroy_drawable\<close> or of \<open>XAppleDRIDestroySurface\<close> are:
  none (and then, if the function returned, the context had no drawable); or, for a context
  whose \<open>drawable\<close> points to the record \<open>agd\<close>, the one call of
  \<open>apple_glx_destroy_drawable\<close> that returned \<open>false\<close>; or that call returning \<open>true\<close>
  followed by one call of \<open>XAppleDRIDestroySurface\<close> with the display, the screen of the
  context and the drawable id read from the record before it was destroyed. So the surface
  teardown is called exactly when the context had a drawable and destroying it reported
  the last reference, and after that report.
  All the contexts that share a record: the list is well formed, the mutex is free, the
  contexts of \<open>cs\<close> are different contexts on the list, all attached to the record at
  \<open>d\<close>, the record holds as many references as there are contexts in \<open>cs\<close>, and the
  drawable manager counts references (\<open>reference_counting\<close>). When these contexts are
  destroyed one after the other, the destroy-drawable and destroy-surface events of the
  whole sequence, however far it gets, are a beginning of: one
  \<open>apple_glx_destroy_drawable\<close> answering \<open>false\<close> for each context but the last, then the
  one answering \<open>true\<close>, then the one call of \<open>XAppleDRIDestroySurface\<close>. So the surface
  is destroyed at most once, and only after every context attached to the record has given
  up its reference.
\<close>

theorem destroy_surface_iff_last_reference:
  "(apple_glx_destroy_context E (Some a) dpy s = (r, s') \<and> heap s a = Some ac \<and>
    trace s' = trace s @ evs \<longrightarrow>
      (filter (\<lambda>e. is_destroy_drawable e \<or> is_destroy_surface e) evs = [] \<and>
           (r = Inr None \<longrightarrow> drawable ac = None)) \<or>
      (\<exists>d agd. drawable ac = Some d \<and> drawables s d = Some agd \<and>
           (filter (\<lambda>e. is_destroy_drawable e \<or> is_destroy_surface e) evs =
              [Call_destroy_drawable d False] \<or>
            filter (\<lambda>e. is_destroy_drawable e \<or> is_destroy_surface e) evs =
              [Call_destroy_drawable d True,
               Call_XAppleDRIDestroySurface dpy (screen ac) (agd_drawable agd)]))) \<and>
   (registry (heap s0) (context_list s0) as \<and> \<not> context_lock s0 \<and>
    distinct (map (\<lambda>c. fst (snd c)) cs) \<and>
    (\<forall>c\<in>set cs. fst (snd c) \<in> set as \<and> attached_to (heap s0) (fst (snd c)) d0 \<and>
        reference_counting (fst c)) \<and>
    drawables s0 d0 = Some agd0 \<and> reference_count agd0 = length cs \<longrightarrow>
      (\<exists>evs0 rest. trace (destroy_calls cs s0) = trace s0 @ evs0 \<and>
         sharing_teardown (heap s0) d0 (agd_drawable agd0) cs =
           filter (\<lambda>e. is_destroy_drawable e \<or> is_destroy_surface e) evs0 @ rest))"
proof (intro conjI impI)
  assume "apple_glx_destroy_context E (Some a) dpy s = (r, s') \<and> heap s a = Some ac \<and>
    trace s' = trace s @ evs"
  then show "(filter (\<lambda>e. is_destroy_drawable e \<or> is_destroy_surface e) evs = [] \<and>
           (r = Inr None \<longrightarrow> drawable ac = None)) \<or>
      (\<exists>d agd. drawable ac = Some d \<and> drawables s d = Some agd \<and>
           (filter (\<lambda>e. is_destroy_drawable e \<or> is_destroy_surface e) evs =
              [Call_destroy_drawable d False] \<or>
            filter (\<lambda>e. is_destroy_drawable e \<or> is_destroy_surface e) evs =
              [Call_destroy_drawable d True,
               Call_XAppleDRIDestroySurface dpy (screen ac) (agd_drawable agd)]))"
    using destroy_one_call_teardown[of E a dpy s r s' ac evs] by blast
next
  assume "registry (heap s0) (context_list s0) as \<and> \<not> context_lock s0 \<and>
    distinct (map (\<lambda>c. fst (snd c)) cs) \<and>
    (\<forall>c\<in>set cs. fst (snd c) \<in> set as \<and> attached_to (heap s0) (fst (snd c)) d0 \<and>
        reference_counting (fst c)) \<and>
    drawables s0 d0 = Some agd0 \<and> reference_count agd0 = length cs"
  then show "\<exists>evs0 rest. trace (destroy_calls cs s0) = trace s0 @ evs0 \<and>
         sharing_teardown (heap s0) d0 (agd_drawable agd0) cs =
           filter (\<lambda>e. is_destroy_drawable e \<or> is_destroy_surface e) evs0 @ rest"
    using destroy_calls_sharing[of s0 as cs d0 agd0] by blast
qed

theorem destroy_surface_iff_last_reference_witness:
  "heap (example_state (Some 10)) 1 = Some (example_ctx (Some 10)) \<and>
   filter (\<lambda>e. is_destroy_drawable e \<or> is_destroy_surface e)
     (trace (snd (apple_glx_destroy_context example_env (Some 1) (Some 0)
                   (example_state (Some 10))))) =
     [Call_destroy_drawable 10 True, Call_XAppleDRIDestroySurface (Some 0) 0 10] \<and>
   registry (heap two_sharing) (context_list two_sharing) [2, 1] \<and>
   reference_counting counting_env \<and>
   attached_to (heap two_sharing) 2 10 \<and> attached_to (heap two_sharing) 1 10 \<and>
   map_option reference_count (drawables two_sharing 10) = Some 2 \<and>
   filter (\<lambda>e. is_destroy_drawable e \<or> is_destroy_surface e)
     (trace (destroy_calls [(counting_env, 2, Some 0), (counting_env, 1, Some 0)] two_sharing)) =
     [Call_destroy_drawable 10 False, Call_destroy_drawable 10 True,
      Call_XAppleDRIDestroySurface (Some 0) 5 10]"
proof -
  let ?run = "apple_glx_destroy_context example_env (Some 1) (Some 0) (example_state (Some 10))"
  let ?cs = "[(counting_env, 2::nat, Some (0::nat)), (counting_env, 1, Some 0)]"
  let ?F = "filter (\<lambda>e. is_destroy_drawable e \<or> is_destroy_surface e)"
  have ac: "heap (example_state (Some 10)) 1 = Some (example_ctx (Some 10))"
    by (simp add: example_defs)
  have tr: "trace (snd ?run) = trace (example_state (Some 10)) @ trace (snd ?run)"
    by (simp add: example_defs)
  have ev: "?F (trace (snd ?run)) =
      [Call_destroy_drawable 10 True, Call_XAppleDRIDestroySurface (Some 0) 0 10]"
    by (simp add: apple_glx_destroy_context_def destroy_unlink_def destroy_teardown_def
        prim_defs example_defs)
  have reg: "registry (heap two_sharing) (context_list two_sharing) [2, 1]"
    by (simp add: registry_def example_defs)
  have rc: "reference_counting counting_env"
    by (simp add: reference_counting_def counting_env_def example_env_def)
  have att: "attached_to (heap two_sharing) 2 10" "attached_to (heap two_sharing) 1 10"
    by (simp_all add: attached_to_def example_defs)
  have cnt: "drawables two_sharing 10 = Some ((example_agd 10)\<lparr>reference_count := 2\<rparr>)"
    "trace two_sharing = []" "\<not> context_lock two_sharing"
    by (simp_all add: example_defs)
  have pre: "registry (heap two_sharing) (context_list two_sharing) [2, 1] \<and>
    \<not> context_lock two_sharing \<and> distinct (map (\<lambda>c. fst (snd c)) ?cs) \<and>
    (\<forall>c\<in>set ?cs. fst (snd c) \<in> set [2, 1::nat] \<and> attached_to (heap two_sharing) (fst (snd c)) 10 \<and>
        reference_counting (fst c)) \<and>
    drawables two_sharing 10 = Some ((example_agd 10)\<lparr>reference_count := 2\<rparr>) \<and>
    reference_count ((example_agd 10)\<lparr>reference_count := 2\<rparr>) = length ?cs"
    using reg rc att cnt by simp
  have all: "?F (trace (destroy_calls ?cs two_sharing)) =
      [Call_destroy_drawable 10 False, Call_destroy_drawable 10 True,
       Call_XAppleDRIDestroySurface (Some 0) 5 10]"
    by (simp add: apple_glx_destroy_context_def destroy_unlink_def destroy_teardown_def
        prim_defs example_defs counted_destroy_def)
  note T = destroy_surface_iff_last_reference[of example_env 1 "Some 0"
      "example_state (Some 10)" "fst ?run" "snd ?run" "example_ctx (Some 10)" "trace (snd ?run)"
      two_sharing "[2, 1]" ?cs 10 "(example_agd 10)\<lparr>reference_count := 2\<rparr>"]
  from T[THEN conjunct2, rule_format, OF pre] T[THEN conjunct1] ac ev reg rc att cnt all
  show ?thesis by simp
qed

text \<open>
  C10. When \<open>apple_glx_destroy_context\<close> returns on a handle that held a context, the
  handle holds \<open>NULL\<close> and the context has been freed; a second call through the same
  handle, with any environment and display, returns at once and changes nothing.
\<close>

theorem destroy_clears_handle:
  assumes "apple_glx_destroy_context E (Some a) dpy s = (Inr h, s')"
  shows "h = None \<and> heap s' a = None \<and>
     apple_glx_destroy_context E' h dpy' s' = (Inr None, s')"
  using assms
proof (cases rule: destroy_cases)
  case (completed ac s4 s10)
  from destroy_teardown_effect[OF completed(3)] completed(4,5) show ?thesis
    by (simp add: call_garbage_collect_drawables_def emit_def apple_glx_destroy_context_def)
qed simp_all

theorem destroy_clears_handle_witness:
  "apple_glx_destroy_context example_env (Some 1) (Some 0) (example_state (Some 10)) =
     (Inr None, snd (apple_glx_destroy_context example_env (Some 1) (Some 0)
                      (example_state (Some 10)))) \<and>
   heap (snd (apple_glx_destroy_context example_env (Some 1) (Some 0)
               (example_state (Some 10)))) 1 = None \<and>
   apple_glx_destroy_context example_env None (Some 0)
     (snd (apple_glx_destroy_context example_env (Some 1) (Some 0) (example_state (Some 10)))) =
     (Inr None, snd (apple_glx_destroy_context example_env (Some 1) (Some 0)
                      (example_state (Some 10))))"
proof -
  let ?run = "apple_glx_destroy_context example_env (Some 1) (Some 0) (example_state (Some 10))"
  have "fst ?run = Inr None"
    by (simp add: apple_glx_destroy_context_def destroy_unlink_def destroy_teardown_def
        prim_defs example_defs)
  then have run: "?run = (Inr None, snd ?run)"
    by (simp add: prod_eq_iff)
  from destroy_clears_handle[OF run, of example_env "Some 0"] run
  show ?thesis by simp
qed

text \<open>
  C5. Take any sequence of calls of \<open>apple_glx_make_current_context\<close> on a context,
  whatever the outside functions answer. First, the events of the sequence keep the
  attachment discipline of \<open>attach_run\<close>, started from the \<open>drawable\<close> field the context
  has at the beginning: \<open>apple_glx_release_drawable\<close> is called on the drawable that is
  attached, \<open>NULL\<close> is stored over an attached drawable only after that release, and
  \<open>apple_glx_find_drawable\<close>, \<open>apple_glx_create_drawable\<close> and the store of a
  drawable into \<open>ac->drawable\<close> happen only while the field is \<open>NULL\<close>; the field holds
  one pointer, and the discipline ends in the value it has after the last call.
  Second, whenever after the sequence the context is attached to a record \<open>old\<close> and one
  more call is made with a drawable other than \<open>None\<close> (and with a display), that call
  begins by releasing \<open>old\<close>, then stores \<open>NULL\<close> into \<open>ac->drawable\<close>, and only then
  calls \<open>apple_glx_find_drawable\<close> for the new drawable.
\<close>

theorem make_current_calls_one_drawable:
  assumes "heap s a = Some ac"
  shows "\<exists>evs ac'. trace (make_current_calls cs a s) = trace s @ evs \<and>
     heap (make_current_calls cs a s) a = Some ac' \<and>
     attach_run a (drawable ac, False) evs = Some (drawable ac', False) \<and>
     (\<forall>E dpy x r s' old.
        apple_glx_make_current_context E dpy (Some a) x (make_current_calls cs a s) = (r, s') \<and>
        drawable ac' = Some old \<and> x \<noteq> None_XID \<and> dpy \<noteq> None \<longrightarrow>
        (\<exists>found rest. trace s' = trace (make_current_calls cs a s) @
           Call_release_drawable old # Store_drawable a None #
           Call_find_drawable dpy x found # rest))"
proof -
  have seq: "\<exists>evs ac'. trace (make_current_calls cs a s) = trace s @ evs \<and>
     heap (make_current_calls cs a s) a = Some ac' \<and>
     attach_run a (drawable ac, False) evs = Some (drawable ac', False)"
    using assms
  proof (induction cs arbitrary: s ac)
    case Nil
    then show ?case by simp
  next
    case (Cons c cs)
    obtain E dpy x where c: "c = (E, dpy, x)" by (cases c)
    obtain r s1 where run: "apple_glx_make_current_context E dpy (Some a) x s = (r, s1)"
      by (cases "apple_glx_make_current_context E dpy (Some a) x s")
    from make_current_attach_run[OF run Cons.prems]
    obtain ev1 ac1 where one: "trace s1 = trace s @ ev1" "heap s1 a = Some ac1"
      "attach_run a (drawable ac, False) ev1 = Some (drawable ac1, False)" by blast
    show ?case
    proof (cases r)
      case (Inl e)
      with c run one show ?thesis by simp
    next
      case (Inr b)
      from Cons.IH[OF one(2)]
      obtain ev2 ac2 where two: "trace (make_current_calls cs a s1) = trace s1 @ ev2"
        "heap (make_current_calls cs a s1) a = Some ac2"
        "attach_run a (drawable ac1, False) ev2 = Some (drawable ac2, False)" by blast
      with c run Inr one show ?thesis
        by (intro exI[of _ "ev1 @ ev2"] exI[of _ ac2]) (simp add: attach_run_append)
    qed
  qed
  then obtain evs ac' where e: "trace (make_current_calls cs a s) = trace s @ evs"
    "heap (make_current_calls cs a s) a = Some ac'"
    "attach_run a (drawable ac, False) evs = Some (drawable ac', False)" by blast
  have "\<exists>found rest. trace s' = trace (make_current_calls cs a s) @
           Call_release_drawable old # Store_drawable a None #
           Call_find_drawable dpy x found # rest"
    if "apple_glx_make_current_context E dpy (Some a) x (make_current_calls cs a s) = (r, s') \<and>
        drawable ac' = Some old \<and> x \<noteq> None_XID \<and> dpy \<noteq> None"
    for E dpy x r s' old
    using that make_current_releases_first[of E dpy a x "make_current_calls cs a s" r s' ac' old]
      e(2) by blast
  with e show ?thesis by blast
qed

theorem make_current_calls_one_drawable_witness:
  "heap (example_state None) 1 = Some (example_ctx None) \<and>
   attach_run 1 (None, False)
     (trace (make_current_calls
        [(example_env, Some 0, 10), (example_env, Some 0, 20),
         (example_env, Some 0, None_XID), (attach_failing_env, Some 0, 10)]
        1 (example_state None))) = Some (Some 10, False) \<and>
   (\<exists>found rest.
      trace (snd (apple_glx_make_current_context example_env (Some 0) (Some 1) 20
                    (make_current_calls [(example_env, Some 0, 10)] 1 (example_state None)))) =
      trace (make_current_calls [(example_env, Some 0, 10)] 1 (example_state None)) @
        Call_release_drawable 10 # Store_drawable 1 None #
        Call_find_drawable (Some 0) 20 found # rest)"
proof -
  let ?cs = "[(example_env, Some 0, 10), (example_env, Some 0, 20),
         (example_env, Some 0, None_XID), (attach_failing_env, Some 0, 10)]"
  let ?s1 = "make_current_calls [(example_env, Some 0, 10)] 1 (example_state None)"
  have ac: "heap (example_state None) 1 = Some (example_ctx None)"
    by (simp add: example_defs)
  have t0: "trace (example_state None) = []" "drawable (example_ctx None) = None"
    by (simp_all add: example_defs)
  have fin: "map_option drawable (heap (make_current_calls ?cs 1 (example_state None)) 1) =
      Some (Some 10)"
    by (simp add: make_current_defs prim_defs example_defs)
  from make_current_calls_one_drawable[OF ac, of ?cs] t0 fin ac
  have part1: "attach_run 1 (None, False)
      (trace (make_current_calls ?cs 1 (example_state None))) = Some (Some 10, False)"
    by auto
  have one: "map_option drawable (heap ?s1 1) = Some (Some 10)"
    by (simp add: make_current_defs prim_defs example_defs)
  have nz: "(20::nat) \<noteq> None_XID" "Some (0::nat) \<noteq> None" by (simp_all add: None_XID_def)
  from make_current_calls_one_drawable[OF ac, of "[(example_env, Some 0, 10)]"]
  obtain ac' where h: "heap ?s1 1 = Some ac'"
    and nxt: "\<forall>E dpy x r s' old.
        apple_glx_make_current_context E dpy (Some 1) x ?s1 = (r, s') \<and>
        drawable ac' = Some old \<and> x \<noteq> None_XID \<and> dpy \<noteq> None \<longrightarrow>
        (\<exists>found rest. trace s' = trace ?s1 @
           Call_release_drawable old # Store_drawable 1 None #
           Call_find_drawable dpy x found # rest)"
    by blast
  from h one have "drawable ac' = Some 10" by simp
  with nxt[rule_format, of example_env "Some 0" 20
      "fst (apple_glx_make_current_context example_env (Some 0) (Some 1) 20 ?s1)"
      "snd (apple_glx_make_current_context example_env (Some 0) (Some 1) 20 ?s1)" 10] nz
  have part2: "\<exists>found rest.
      trace (snd (apple_glx_make_current_context example_env (Some 0) (Some 1) 20 ?s1)) =
      trace ?s1 @ Call_release_drawable 10 # Store_drawable 1 None #
        Call_find_drawable (Some 0) 20 found # rest"
    by simp
  from ac part1 part2 show ?thesis by blast
qed

text \<open>
  C8. A context is attached to a record of the drawable \<open>x\<close>, and
  \<open>apple_glx_make_current_context\<close> is called twice with \<open>x\<close>, each time in a healthy
  environment. Then both calls return \<open>false\<close>, after each the context is attached to a
  record of \<open>x\<close>, and each call adds to the trace one full cycle: it releases the record
  that was attached (in the second call the one the first call attached), stores \<open>NULL\<close>,
  finds or creates the record, stores it, attaches, sets the context current and stores the
  thread. Nothing is skipped because the drawable is the one already attached.
\<close>

theorem make_current_twice_same_drawable:
  assumes b: "bound_to s a x" and nz: "x \<noteq> None_XID" and d: "dpy \<noteq> None"
    and h1: "healthy E1 dpy a x" and h2: "healthy E2 dpy a x"
  shows "\<exists>s1 s2 ac old found1 p1 sid1 found2 p2 sid2.
     heap s a = Some ac \<and> drawable ac = Some old \<and>
     apple_glx_make_current_context E1 dpy (Some a) x s = (Inr False, s1) \<and>
     apple_glx_make_current_context E2 dpy (Some a) x s1 = (Inr False, s2) \<and>
     bound_to s1 a x \<and> bound_to s2 a x \<and>
     (found1 = None \<or> found1 = Some p1) \<and> (found2 = None \<or> found2 = Some p2) \<and>
     trace s1 = trace s @
       rebind_events a old dpy x found1 p1 (context_obj ac) sid1 (pthread_self E1) \<and>
     trace s2 = trace s1 @
       rebind_events a p1 dpy x found2 p2 (context_obj ac) sid2 (pthread_self E2)"
proof -
  from healthy_call[OF b nz h1 d]
  obtain s1 ac old found1 p1 sid1 where one: "heap s a = Some ac" "drawable ac = Some old"
    "apple_glx_make_current_context E1 dpy (Some a) x s = (Inr False, s1)"
    "bound_to s1 a x"
    "heap s1 a = Some (ac\<lparr>drawable := Some p1, thread_id := pthread_self E1\<rparr>)"
    "found1 = None \<or> found1 = Some p1"
    "trace s1 = trace s @
       rebind_events a old dpy x found1 p1 (context_obj ac) sid1 (pthread_self E1)"
    by blast
  from healthy_call[OF one(4) nz h2 d] one(5)
  obtain s2 found2 p2 sid2 where two:
    "apple_glx_make_current_context E2 dpy (Some a) x s1 = (Inr False, s2)"
    "bound_to s2 a x"
    "found2 = None \<or> found2 = Some p2"
    "trace s2 = trace s1 @
       rebind_events a p1 dpy x found2 p2 (context_obj ac) sid2 (pthread_self E2)"
    by auto
  from one two show ?thesis by blast
qed


theorem make_current_twice_same_drawable_witness:
  "bound_to (example_state (Some 10)) 1 10 \<and> healthy example_env (Some 0) 1 10 \<and>
   fst (apple_glx_make_current_context example_env (Some 0) (Some 1) 10
         (example_state (Some 10))) = Inr False \<and>
   fst (apple_glx_make_current_context example_env (Some 0) (Some 1) 10
         (snd (apple_glx_make_current_context example_env (Some 0) (Some 1) 10
                (example_state (Some 10))))) = Inr False \<and>
   bound_to
     (snd (apple_glx_make_current_context example_env (Some 0) (Some 1) 10
            (snd (apple_glx_make_current_context example_env (Some 0) (Some 1) 10
                   (example_state (Some 10)))))) 1 10"
proof -
  have b: "bound_to (example_state (Some 10)) 1 10"
    by (simp add: bound_to_def example_defs)
  have nz: "(10::nat) \<noteq> None_XID" by (simp add: None_XID_def)
  have d: "Some (0::nat) \<noteq> None" by simp
  have h: "healthy example_env (Some 0) 1 10"
    by (auto simp: healthy_def resolves_def example_env_def example_agd_def)
  from make_current_twice_same_drawable[OF b nz d h h]
  obtain s1 s2 where
    "apple_glx_make_current_context example_env (Some 0) (Some 1) 10
       (example_state (Some 10)) = (Inr False, s1)"
    "apple_glx_make_current_context example_env (Some 0) (Some 1) 10 s1 = (Inr False, s2)"
    "bound_to s2 1 10"
    by blast
  with b h show ?thesis by simp
qed

text \<open>
  C6. On a list that ends (following \<open>next\<close> from \<open>context_list\<close> visits the contexts
  \<open>as\<close> and reaches \<open>NULL\<close>), with the mutex free and every \<open>drawable\<close> pointer of a
  context on the list \<open>NULL\<close> or pointing to a record, \<open>apple_glx_get_surface_from_uid\<close>
  returns. What it adds to the trace is \<open>Lock\<close>, the loads of the contexts up to and with
  the first one whose drawable has the uid, and \<open>Unlock\<close>; nothing else of the state
  changes, so the whole scan runs with the mutex held and the mutex is free at return.
  When a context on the list has a drawable with the uid, the result is \<open>false\<close> with the
  \<open>surface_id\<close> of the drawable and the \<open>context_obj\<close> of the first such context; the
  result is \<open>true\<close>, with nothing stored, exactly when no context on the list has a
  drawable with the uid.
\<close>

theorem get_surface_from_uid_first_owner:
  assumes "fwd_chain (heap s) (context_list s) as" "\<not> context_lock s"
    "\<forall>a\<in>set as. drawable_ok (heap s) (drawables s) a"
  shows "\<exists>res. apple_glx_get_surface_from_uid u s =
       Some (Inr res,
             s\<lparr>trace := trace s @ Lock #
                 map Load_context (scan_prefix (owner_is (heap s) (drawables s) u) as) @
                 [Unlock]\<rparr>) \<and>
     res = (case find (owner_is (heap s) (drawables s) u) as of
              None \<Rightarrow> (True, None)
            | Some a \<Rightarrow> (False, owner_result (heap s) (drawables s) a)) \<and>
     (fst res \<longleftrightarrow> (\<forall>a\<in>set as. \<not> owner_is (heap s) (drawables s) u a))"
proof -
  let ?t = "emit Lock (s\<lparr>context_lock := True\<rparr>)"
  have t: "heap ?t = heap s" "drawables ?t = drawables s" "context_lock ?t"
    "context_list ?t = context_list s" "trace ?t = trace s @ [Lock]"
    by (simp_all add: emit_def)
  from assms t have a1: "fwd_chain (heap ?t) (context_list ?t) as"
    and a3: "\<forall>a\<in>set as. drawable_ok (heap ?t) (drawables ?t) a" by simp_all
  note L = get_surface_loop_scan[OF a1 t(3) a3, of u, unfolded t]
  have lk: "lock_context_list s = (Inr (), ?t)"
    using assms(2) by (simp add: lock_context_list_def)
  have fin: "?t\<lparr>context_lock := False, trace := X\<rparr> = s\<lparr>trace := X\<rparr>" for X
    using assms(2) by (simp add: emit_def)
  have "fst (case find (owner_is (heap s) (drawables s) u) as of
              None \<Rightarrow> (True, None)
            | Some a \<Rightarrow> (False, owner_result (heap s) (drawables s) a))
      \<longleftrightarrow> (\<forall>a\<in>set as. \<not> owner_is (heap s) (drawables s) u a)"
    by (auto simp: find_None_iff split: option.splits dest: find_Some_holds)
  with L lk t(4) fin show ?thesis
    by (simp add: apple_glx_get_surface_from_uid_def)
qed


theorem get_surface_from_uid_first_owner_witness:
  "fwd_chain (heap three_contexts) (context_list three_contexts) [3, 2, 1] \<and>
   apple_glx_get_surface_from_uid 120 three_contexts =
     Some (Inr (False, Some (220, Some 12)),
           three_contexts\<lparr>trace := [Lock, Load_context 3, Load_context 2, Unlock]\<rparr>)"
proof -
  have fw: "fwd_chain (heap three_contexts) (context_list three_contexts) [3, 2, 1]"
    by (simp add: example_defs)
  have free: "\<not> context_lock three_contexts"
    by (simp add: example_defs)
  have ok: "\<forall>a\<in>set [3, 2, 1]. drawable_ok (heap three_contexts) (drawables three_contexts) a"
    by (simp add: drawable_ok_def example_defs)
  have o: "\<not> owner_is (heap three_contexts) (drawables three_contexts) 120 3"
    "owner_is (heap three_contexts) (drawables three_contexts) 120 2"
    "owner_result (heap three_contexts) (drawables three_contexts) 2 = Some (220, Some 12)"
    "trace three_contexts = []"
    by (simp_all add: owner_is_def owner_result_def example_defs)
  from get_surface_from_uid_first_owner[OF fw free ok, of 120] o fw
  show ?thesis by auto
qed

end
